(* ===== verification/VGA_Prelude.thy ===== *)
theory VGA_Prelude
  imports Main "HOL-Library.Word"
begin

text \<open>
  Shared vocabulary of the development: the C integer types of the i386 target
  as words (\<open>size_t\<close> and pointers are 32 bits wide, \<open>uint8_t\<close> 8 bits,
  \<open>uint16_t\<close> 16 bits), the collection \<open>vga_simps\<close> of rewrite rules that
  the component proofs share, and generic lemmas on words and lists that the
  loops of \<open>src/kernel.c\<close> need (an index below a bound can be incremented
  without wrap-around; a list updated on a contiguous range is a splice).
\<close>

unbundle bit_operations_syntax

type_synonym size_t = "32 word"
type_synonym uint8 = "8 word"
type_synonym uint16 = "16 word"
type_synonym addr = "32 word"

named_theorems vga_simps "rewrite rules of the VGA memory and terminal model"

subsection \<open>Words\<close>

text \<open>A counter strictly below some bound does not wrap when incremented.\<close>

lemma word_less_unat_Suc:
  fixes i n :: "'a::len word"
  assumes "i < n"
  shows "unat (i + 1) = Suc (unat i)"
proof -
  have "unat i < unat n" using assms by (simp add: word_less_nat_alt)
  moreover have "unat n < 2 ^ LENGTH('a)" by (rule unsigned_less)
  ultimately have "Suc (unat i) < 2 ^ LENGTH('a)" by linarith
  then have "unat i + unat (1::'a word) < 2 ^ LENGTH('a)" by simp
  then show ?thesis by (simp add: unat_add_lem [THEN iffD1])
qed

lemma word_less_measure_decreases:
  fixes i n :: "'a::len word"
  assumes "i < n"
  shows "unat n - unat (i + 1) < unat n - unat i"
  using assms word_less_unat_Suc [OF assms] by (simp add: word_less_nat_alt)

lemma unat_of_nat_small [vga_simps]:
  "n < 2 ^ LENGTH('a) \<Longrightarrow> unat (word_of_nat n :: 'a::len word) = n"
  by (simp add: of_nat_inverse)

lemma unat_ucast_8_16 [vga_simps]: "unat (ucast (c::uint8) :: uint16) = unat c"
proof -
  have "unat c < 256" using unsigned_less [of c] by simp
  then show ?thesis by (simp add: unsigned_ucast_eq take_bit_nat_eq_self_iff)
qed

lemma unat_uint8_less: "unat (c::uint8) < 256"
  using unsigned_less [of c] by simp

lemma word_succ_eq_nat:
  fixes a :: "'a::len word"
  assumes "unat a < n" "n < 2 ^ LENGTH('a)"
  shows "(a + 1 = word_of_nat n) \<longleftrightarrow> Suc (unat a) = n"
proof -
  have "unat a + unat (1::'a word) < 2 ^ LENGTH('a)" using assms by simp
  then have "unat (a + 1) = Suc (unat a)" by (simp add: unat_add_lem [THEN iffD1])
  then show ?thesis using assms by (metis unat_of_nat_small word_unat_eq_iff)
qed

subsection \<open>Lists\<close>

text \<open>Writing one value into a range of positions, and copying a range.\<close>

lemma splice_update_next:
  assumes "i + length ys < length xs"
  shows "(take i xs @ ys @ drop (i + length ys) xs)[i + length ys := v] =
         take i xs @ (ys @ [v]) @ drop (Suc (i + length ys)) xs"
proof -
  have i: "length (take i xs) = i" using assms by simp
  have "drop (i + length ys) xs = xs ! (i + length ys) # drop (Suc (i + length ys)) xs"
    using assms by (rule Cons_nth_drop_Suc [symmetric])
  then show ?thesis using i by (simp add: list_update_append)
qed

lemma take_Suc_update: "k < length xs \<Longrightarrow> take (Suc k) (xs[k := v]) = take k xs @ [v]"
  by (simp add: take_Suc_conv_app_nth)

lemma take_drop_Suc_nth:
  "j < length xs \<Longrightarrow> 0 < n \<Longrightarrow> take n (drop j xs) = xs ! j # take (n - 1) (drop (Suc j) xs)"
  by (cases n) (simp_all add: Cons_nth_drop_Suc [symmetric])

lemma take_drop_split: "take n (drop k xs) @ drop (k + n) xs = drop k xs"
  by (metis append_take_drop_id drop_drop add.commute)

lemma takeWhile_nth_holds: "j < length (takeWhile P xs) \<Longrightarrow> P (xs ! j)"
  by (metis nth_mem set_takeWhileD takeWhile_nth)

lemma length_takeWhile_less_ex:
  assumes "x \<in> set xs" "\<not> P x"
  shows "length (takeWhile P xs) < length xs"
proof -
  have "length (takeWhile P xs) \<noteq> length xs"
  proof
    assume "length (takeWhile P xs) = length xs"
    then have "takeWhile P xs = xs" by (metis takeWhile_eq_take take_all order_refl)
    then show False using assms by (metis takeWhile_eq_all_conv)
  qed
  then show ?thesis using length_takeWhile_le [of P xs] by simp
qed

lemma splice_nth_right:
  assumes "i \<le> j" "j < length xs" "length ys = k" "i + k \<le> j"
  shows "(take i xs @ ys @ drop (i + k) xs) ! j = xs ! j"
  using assms by (auto simp: nth_append)

end
