(* ===== verification/VGA_Codec.thy ===== *)
theory VGA_Codec
  imports VGA_Prelude
begin

text \<open>
  The cell codec of \<open>src/kernel.c\<close> (lines 15--43): the sixteen hardware colours
  (\<open>enum vga_color\<close>), the attribute byte \<open>vga_entry_color\<close> (foreground in
  the low nibble, background in the high nibble) and the 16-bit cell
  \<open>vga_entry\<close> (character in the low byte, attribute in the high byte).
  The decoders \<open>entry_char\<close>, \<open>entry_attr\<close>, \<open>attr_fg\<close> and \<open>attr_bg\<close>
  are not in the source: they read a cell back the way the VGA hardware does, and
  the round-trip lemmas show that the packing loses nothing.
\<close>

unbundle bit_operations_syntax

datatype vga_color =
    VGA_COLOR_BLACK | VGA_COLOR_BLUE | VGA_COLOR_GREEN | VGA_COLOR_CYAN
  | VGA_COLOR_RED | VGA_COLOR_MAGENTA | VGA_COLOR_BROWN | VGA_COLOR_LIGHT_GREY
  | VGA_COLOR_DARK_GREY | VGA_COLOR_LIGHT_BLUE | VGA_COLOR_LIGHT_GREEN
  | VGA_COLOR_LIGHT_CYAN | VGA_COLOR_LIGHT_RED | VGA_COLOR_LIGHT_MAGENTA
  | VGA_COLOR_LIGHT_BROWN | VGA_COLOR_WHITE

text \<open>The integer value of each enumerator, as the C enum assigns it.\<close>

fun vga_color_val :: "vga_color \<Rightarrow> nat" where
  "vga_color_val VGA_COLOR_BLACK = 0"
| "vga_color_val VGA_COLOR_BLUE = 1"
| "vga_color_val VGA_COLOR_GREEN = 2"
| "vga_color_val VGA_COLOR_CYAN = 3"
| "vga_color_val VGA_COLOR_RED = 4"
| "vga_color_val VGA_COLOR_MAGENTA = 5"
| "vga_color_val VGA_COLOR_BROWN = 6"
| "vga_color_val VGA_COLOR_LIGHT_GREY = 7"
| "vga_color_val VGA_COLOR_DARK_GREY = 8"
| "vga_color_val VGA_COLOR_LIGHT_BLUE = 9"
| "vga_color_val VGA_COLOR_LIGHT_GREEN = 10"
| "vga_color_val VGA_COLOR_LIGHT_CYAN = 11"
| "vga_color_val VGA_COLOR_LIGHT_RED = 12"
| "vga_color_val VGA_COLOR_LIGHT_MAGENTA = 13"
| "vga_color_val VGA_COLOR_LIGHT_BROWN = 14"
| "vga_color_val VGA_COLOR_WHITE = 15"

text \<open>
  \<open>fg | bg << 4\<close> is computed on \<open>int\<close> and truncated to \<open>uint8_t\<close> on return;
  truncation commutes with \<open>|\<close> and \<open><<\<close>, so computing on 8-bit words is the
  same function.
\<close>

definition vga_entry_color :: "vga_color \<Rightarrow> vga_color \<Rightarrow> uint8" where
  "vga_entry_color fg bg =
     word_of_nat (vga_color_val fg) OR push_bit 4 (word_of_nat (vga_color_val bg))"

text \<open>
  \<open>(uint16_t) uc | (uint16_t) color << 8\<close>: both operands are widened to 16 bits
  (promoted to \<open>int\<close>, where the shifted attribute stays below \<open>2^16\<close>).
\<close>

definition vga_entry :: "uint8 \<Rightarrow> uint8 \<Rightarrow> uint16" where
  "vga_entry uc color = ucast uc OR push_bit 8 (ucast color)"

subsection \<open>Decoding, as the display hardware reads a cell\<close>

definition vga_colors :: "vga_color list" where
  "vga_colors =
    [VGA_COLOR_BLACK, VGA_COLOR_BLUE, VGA_COLOR_GREEN, VGA_COLOR_CYAN,
     VGA_COLOR_RED, VGA_COLOR_MAGENTA, VGA_COLOR_BROWN, VGA_COLOR_LIGHT_GREY,
     VGA_COLOR_DARK_GREY, VGA_COLOR_LIGHT_BLUE, VGA_COLOR_LIGHT_GREEN,
     VGA_COLOR_LIGHT_CYAN, VGA_COLOR_LIGHT_RED, VGA_COLOR_LIGHT_MAGENTA,
     VGA_COLOR_LIGHT_BROWN, VGA_COLOR_WHITE]"

definition attr_fg :: "uint8 \<Rightarrow> vga_color" where
  "attr_fg a = vga_colors ! unat (take_bit 4 a)"

definition attr_bg :: "uint8 \<Rightarrow> vga_color" where
  "attr_bg a = vga_colors ! unat (drop_bit 4 a)"

definition entry_char :: "uint16 \<Rightarrow> uint8" where
  "entry_char e = ucast e"

definition entry_attr :: "uint16 \<Rightarrow> uint8" where
  "entry_attr e = ucast (drop_bit 8 e)"

subsection \<open>Properties of the codec\<close>

lemma vga_color_val_less: "vga_color_val c < 16"
  by (cases c) simp_all

lemma vga_colors_nth_val: "vga_colors ! vga_color_val c = c"
  by (cases c) (simp_all add: vga_colors_def)

lemma vga_color_val_inj: "vga_color_val c = vga_color_val d \<longleftrightarrow> c = d"
  by (metis vga_colors_nth_val)

lemma bit_color_val_low: "bit (vga_color_val c) n \<Longrightarrow> n < 4"
proof -
  assume b: "bit (vga_color_val c) n"
  have "take_bit 4 (vga_color_val c) = vga_color_val c"
    using vga_color_val_less [of c] by (simp add: take_bit_nat_eq_self_iff)
  with b show "n < 4" by (metis bit_take_bit_iff)
qed

lemma vga_entry_color_add:
  "vga_entry_color fg bg =
     word_of_nat (vga_color_val fg) + push_bit 4 (word_of_nat (vga_color_val bg))"
  unfolding vga_entry_color_def
  by (intro disjunctive_add_eq_or [symmetric] bit_word_eqI)
     (auto simp: bit_simps dest: bit_color_val_low)

lemma vga_entry_add: "vga_entry c a = ucast c + push_bit 8 (ucast a)"
  unfolding vga_entry_def
  by (rule disjunctive_add_eq_or [symmetric], rule bit_word_eqI)
     (auto simp: bit_simps dest: bit_imp_le_length)

lemma unat_vga_entry_color:
  "unat (vga_entry_color fg bg) = vga_color_val fg + 16 * vga_color_val bg"
proof -
  have f: "unat (word_of_nat (vga_color_val fg) :: uint8) = vga_color_val fg"
    and b: "unat (word_of_nat (vga_color_val bg) :: uint8) = vga_color_val bg"
    using vga_color_val_less [of fg] vga_color_val_less [of bg]
    by (simp_all add: unat_of_nat_small)
  have "unat (word_of_nat (vga_color_val bg) :: uint8) * unat (16 :: uint8) < 2 ^ LENGTH(8)"
    using vga_color_val_less [of bg] by (simp add: b)
  then have p: "unat (push_bit 4 (word_of_nat (vga_color_val bg)) :: uint8) = 16 * vga_color_val bg"
    by (simp add: push_bit_eq_mult unat_mult_lem [THEN iffD1] b)
  have "unat (word_of_nat (vga_color_val fg) :: uint8)
        + unat (push_bit 4 (word_of_nat (vga_color_val bg)) :: uint8) < 2 ^ LENGTH(8)"
    using vga_color_val_less [of fg] vga_color_val_less [of bg] by (simp add: f p)
  then show ?thesis by (simp add: vga_entry_color_add unat_add_lem [THEN iffD1] f p)
qed
lemma attr_fg_vga_entry_color: "attr_fg (vga_entry_color fg bg) = fg"
proof -
  have "unat (take_bit 4 (vga_entry_color fg bg)) = take_bit 4 (unat (vga_entry_color fg bg))"
    by (simp only: unsigned_take_bit_eq)
  also have "\<dots> = vga_color_val fg"
    using vga_color_val_less [of fg] by (simp add: take_bit_eq_mod unat_vga_entry_color)
  finally show ?thesis by (simp add: attr_fg_def vga_colors_nth_val)
qed
lemma attr_bg_vga_entry_color: "attr_bg (vga_entry_color fg bg) = bg"
proof -
  have "unat (drop_bit 4 (vga_entry_color fg bg)) = drop_bit 4 (unat (vga_entry_color fg bg))"
    by (rule unat_drop_bit_eq)
  also have "\<dots> = vga_color_val bg"
    using vga_color_val_less [of fg] by (simp add: drop_bit_eq_div unat_vga_entry_color)
  finally show ?thesis by (simp add: attr_bg_def vga_colors_nth_val)
qed
text \<open>
  C14. An attribute byte built by \<open>vga_entry_color\<close> from two colours gives back
  both colours: the foreground from its low nibble, the background from its high
  nibble.
\<close>

theorem vga_entry_color_roundtrip:
  "attr_fg (vga_entry_color fg bg) = fg \<and> attr_bg (vga_entry_color fg bg) = bg"
  by (simp add: attr_fg_vga_entry_color attr_bg_vga_entry_color)

lemma unat_vga_entry: "unat (vga_entry c a) = unat c + 256 * unat a"
proof -
  have c: "unat c < 256" and a: "unat a < 256" by (simp_all add: unat_uint8_less)
  have "unat (ucast a :: uint16) * unat (256 :: uint16) < 2 ^ LENGTH(16)"
    using a by (simp add: unat_ucast_8_16)
  then have p: "unat (push_bit 8 (ucast a) :: uint16) = 256 * unat a"
    by (simp add: push_bit_eq_mult unat_mult_lem [THEN iffD1] unat_ucast_8_16)
  have "unat (ucast c :: uint16) + unat (push_bit 8 (ucast a) :: uint16) < 2 ^ LENGTH(16)"
    using c a by (simp add: p unat_ucast_8_16)
  then show ?thesis by (simp add: vga_entry_add unat_add_lem [THEN iffD1] p unat_ucast_8_16)
qed

lemma entry_char_vga_entry [simp]: "entry_char (vga_entry c a) = c"
  unfolding entry_char_def vga_entry_def
  by (rule bit_word_eqI) (auto simp: bit_simps)

lemma entry_attr_vga_entry [simp]: "entry_attr (vga_entry c a) = a"
  unfolding entry_attr_def vga_entry_def
  by (rule bit_word_eqI) (auto simp: bit_simps dest: bit_imp_le_length)

lemma vga_entry_entry_parts: "vga_entry (entry_char e) (entry_attr e) = e"
  unfolding entry_attr_def vga_entry_def entry_char_def
  by (rule bit_word_eqI) (auto simp: bit_simps)

lemma vga_entry_eq_iff: "vga_entry c a = vga_entry c' a' \<longleftrightarrow> c = c' \<and> a = a'"
  by (metis entry_attr_vga_entry entry_char_vga_entry)

text \<open>
  C13. The cell encoding is a bijection between (character, attribute) pairs and
  16-bit cells: decoding an encoded cell gives back its character and attribute,
  and every cell is the encoding of its decoded parts.
\<close>

theorem vga_entry_roundtrip:
  "entry_char (vga_entry c a) = c \<and> entry_attr (vga_entry c a) = a \<and>
   vga_entry (entry_char e) (entry_attr e) = e"
  by (simp add: vga_entry_entry_parts)

text \<open>The two blank cells of the program: the one \<open>terminal_initialize\<close> and
  \<open>terminal_blank\<close> write, and the one \<open>terminal_blank_line\<close> writes.\<close>

lemma default_color: "vga_entry_color VGA_COLOR_GREEN VGA_COLOR_BLACK = 2"
  by (simp add: vga_entry_color_def)

lemma blank_line_cell_parts: "(0xFF00 :: uint16) = vga_entry 0 0xFF"
  by (simp add: vga_entry_def)

end
