(* ===== verification/VGA_Memory.thy ===== *)
theory VGA_Memory
  imports VGA_Prelude
begin

text \<open>
  The display buffer of \<open>src/kernel.c\<close>: the 80 by 25 grid of 16-bit cells that
  the VGA text mode maps at physical address \<open>0xB8000\<close> (lines 53--54, 66), the
  C access \<open>p[i]\<close> through a \<open>uint16_t *\<close>, and the two helper loops that work
  on one line of it, \<open>terminal_blank_line\<close> (lines 86--92) and
  \<open>terminal_line_copy\<close> (lines 94--102).

  The memory is the list of the 2000 cells of the grid.  A pointer is a 32-bit
  address; \<open>p[i]\<close> is the cell at address \<open>p + 2 * i\<close>, computed modulo
  \<open>2^32\<close> as on the i386.  An access whose address is not one of the grid's cells
  (a null pointer, an index past the grid) is undefined behaviour in C: here it
  is the value \<open>None\<close>, which every operation above propagates.
\<close>

definition VGA_WIDTH :: nat where
  "VGA_WIDTH = 80"

definition VGA_HEIGHT :: nat where
  "VGA_HEIGHT = 25"

definition VGA_BASE :: addr where
  "VGA_BASE = 0xB8000"

type_synonym vga_mem = "uint16 list"

text \<open>The cell number of an address, when the address is a cell of the grid.\<close>

definition vga_cell :: "addr \<Rightarrow> nat option" where
  "vga_cell a =
     (if VGA_BASE \<le> a \<and> even (unat (a - VGA_BASE))
         \<and> unat (a - VGA_BASE) div 2 < VGA_WIDTH * VGA_HEIGHT
      then Some (unat (a - VGA_BASE) div 2) else None)"

definition elem_addr :: "addr \<Rightarrow> size_t \<Rightarrow> addr" where
  "elem_addr p i = p + 2 * i"

definition vga_store :: "addr \<Rightarrow> size_t \<Rightarrow> uint16 \<Rightarrow> vga_mem \<Rightarrow> vga_mem option" where
  "vga_store p i v m =
     (case vga_cell (elem_addr p i) of
        None \<Rightarrow> None
      | Some k \<Rightarrow> if k < length m then Some (m[k := v]) else None)"

definition vga_load :: "addr \<Rightarrow> size_t \<Rightarrow> vga_mem \<Rightarrow> uint16 option" where
  "vga_load p i m =
     (case vga_cell (elem_addr p i) of
        None \<Rightarrow> None
      | Some k \<Rightarrow> if k < length m then Some (m ! k) else None)"

subsection \<open>\<open>terminal_blank_line\<close>\<close>

text \<open>\<open>for (size_t x = 0; x < VGA_WIDTH; x++) line_ptr[x] = 0xFF00u;\<close>\<close>

function blank_line_loop :: "addr \<Rightarrow> size_t \<Rightarrow> vga_mem \<Rightarrow> vga_mem option" where
  "blank_line_loop line_ptr x m =
     (if x < word_of_nat VGA_WIDTH then
        (case vga_store line_ptr x 0xFF00 m of
           None \<Rightarrow> None
         | Some m' \<Rightarrow> blank_line_loop line_ptr (x + 1) m')
      else Some m)"
  by pat_completeness auto
termination
  by (relation "measure (\<lambda>(p, x, m). unat (word_of_nat VGA_WIDTH :: size_t) - unat x)")
     (auto intro: word_less_measure_decreases)

definition terminal_blank_line :: "addr \<Rightarrow> vga_mem \<Rightarrow> vga_mem option" where
  "terminal_blank_line line_ptr m = blank_line_loop line_ptr 0 m"

subsection \<open>\<open>terminal_line_copy\<close>\<close>

text \<open>
  \<open>while (i < len) { dest[i] = from[i]; i++; } return i;\<close>: the result is the
  memory after the loop and the returned count.
\<close>

function line_copy_loop ::
  "addr \<Rightarrow> addr \<Rightarrow> size_t \<Rightarrow> size_t \<Rightarrow> vga_mem \<Rightarrow> (vga_mem \<times> size_t) option" where
  "line_copy_loop from_ptr dest len i m =
     (if i < len then
        (case vga_load from_ptr i m of
           None \<Rightarrow> None
         | Some v \<Rightarrow>
             (case vga_store dest i v m of
                None \<Rightarrow> None
              | Some m' \<Rightarrow> line_copy_loop from_ptr dest len (i + 1) m'))
      else Some (m, i))"
  by pat_completeness auto
termination
  by (relation "measure (\<lambda>(f, d, len, i, m). unat len - unat i)")
     (auto intro: word_less_measure_decreases)

definition terminal_line_copy ::
  "addr \<Rightarrow> addr \<Rightarrow> size_t \<Rightarrow> vga_mem \<Rightarrow> (vga_mem \<times> size_t) option" where
  "terminal_line_copy from_ptr dest len m = line_copy_loop from_ptr dest len 0 m"

text \<open>
  Reference behaviour of a copy of \<open>len\<close> cells from cell \<open>a\<close> to cell
  \<open>b\<close> of the grid (the semantics of \<open>memmove\<close>): positions \<open>b\<close> to
  \<open>b + len - 1\<close> receive the old contents of \<open>a\<close> to \<open>a + len - 1\<close>, all
  others keep theirs.
\<close>

definition move_cells :: "nat \<Rightarrow> nat \<Rightarrow> nat \<Rightarrow> vga_mem \<Rightarrow> vga_mem" where
  "move_cells a b len m = take b m @ take len (drop a m) @ drop (b + len) m"

declare blank_line_loop.simps [simp del] line_copy_loop.simps [simp del]

subsection \<open>Addresses of the grid\<close>

lemma vga_grid_size [vga_simps]: "VGA_WIDTH * VGA_HEIGHT = 2000"
  by (simp add: VGA_WIDTH_def VGA_HEIGHT_def)

lemma vga_width_word [vga_simps]: "(word_of_nat VGA_WIDTH :: size_t) = 80"
  by (simp add: VGA_WIDTH_def)

lemma unat_vga_width_word [vga_simps]: "unat (word_of_nat VGA_WIDTH :: size_t) = 80"
  by (simp add: VGA_WIDTH_def)

lemma vga_height_word [vga_simps]: "(word_of_nat VGA_HEIGHT :: size_t) = 25"
  by (simp add: VGA_HEIGHT_def)

lemma unat_vga_height_word [vga_simps]: "unat (word_of_nat VGA_HEIGHT :: size_t) = 25"
  by (simp add: VGA_HEIGHT_def)

lemma elem_addr_elem_addr [vga_simps]: "elem_addr (elem_addr p r) i = elem_addr p (r + i)"
  by (simp add: elem_addr_def distrib_left)

lemma unat_add_small:
  fixes a b :: size_t
  assumes "unat a + unat b < 2 ^ 32"
  shows "unat (a + b) = unat a + unat b"
  using assms by (simp add: unat_add_lem [THEN iffD1])

lemma vga_cell_base:
  assumes k: "unat k < VGA_WIDTH * VGA_HEIGHT"
  shows "vga_cell (elem_addr VGA_BASE k) = Some (unat k)"
proof -
  have k': "unat k < 2000" using k by (simp add: vga_grid_size)
  have m: "unat (2 * k) = 2 * unat k" using k' by (simp add: unat_mult_lem [THEN iffD1])
  have "VGA_BASE \<le> VGA_BASE + 2 * k"
    using k' m by (simp add: no_plus_overflow_unat_size word_size VGA_BASE_def)
  then show ?thesis using k' m by (simp add: vga_cell_def elem_addr_def vga_grid_size)
qed

lemma vga_store_base [vga_simps]:
  "length m = VGA_WIDTH * VGA_HEIGHT \<Longrightarrow> unat k < VGA_WIDTH * VGA_HEIGHT \<Longrightarrow>
   vga_store VGA_BASE k v m = Some (m[unat k := v])"
  by (simp add: vga_store_def vga_cell_base)

lemma vga_load_base [vga_simps]:
  "length m = VGA_WIDTH * VGA_HEIGHT \<Longrightarrow> unat k < VGA_WIDTH * VGA_HEIGHT \<Longrightarrow>
   vga_load VGA_BASE k m = Some (m ! unat k)"
  by (simp add: vga_load_def vga_cell_base)

lemma vga_store_row [vga_simps]:
  "vga_store (elem_addr p r) i v m = vga_store p (r + i) v m"
  by (simp add: vga_store_def elem_addr_elem_addr)

lemma vga_load_row [vga_simps]:
  "vga_load (elem_addr p r) i m = vga_load p (r + i) m"
  by (simp add: vga_load_def elem_addr_elem_addr)

text \<open>Below the grid's base address no access succeeds: in particular not one
  through the null pointer that \<open>terminal_buffer\<close> holds before
  \<open>terminal_initialize\<close>.\<close>

lemma vga_cell_below_base: "a < VGA_BASE \<Longrightarrow> vga_cell a = None"
  by (auto simp: vga_cell_def)

lemma vga_store_null:
  assumes "unat i < 0x5C000"
  shows "vga_store 0 i v m = None"
proof -
  have "unat (2 * i) = 2 * unat i" using assms by (simp add: unat_mult_lem [THEN iffD1])
  then have "elem_addr 0 i < VGA_BASE"
    using assms by (simp add: elem_addr_def VGA_BASE_def word_less_nat_alt)
  then show ?thesis by (simp add: vga_store_def vga_cell_below_base)
qed

subsection \<open>The line loops\<close>

lemma blank_line_loop_row:
  assumes "p = elem_addr VGA_BASE r" "length m = VGA_WIDTH * VGA_HEIGHT"
    "unat r + 80 \<le> VGA_WIDTH * VGA_HEIGHT" "unat x \<le> 80"
  shows "blank_line_loop p x m =
         Some (take (unat r + unat x) m @ replicate (80 - unat x) 0xFF00 @ drop (unat r + 80) m)"
  using assms
proof (induction p x m rule: blank_line_loop.induct)
  case (1 p x m)
  show ?case
  proof (cases "x < 80")
    case True
    have rx: "unat (r + x) = unat r + unat x"
      using "1.prems" by (simp add: unat_add_small vga_grid_size)
    have lt: "unat r + unat x < length m"
      using True "1.prems" by (simp add: word_less_nat_alt vga_grid_size)
    let ?m' = "m[unat r + unat x := 0xFF00]"
    have st: "vga_store p x 0xFF00 m = Some ?m'"
      using "1.prems" lt rx by (simp add: vga_store_row vga_store_base)
    have x1: "unat (x + 1) = Suc (unat x)" using True by (rule word_less_unat_Suc)
    have ih: "blank_line_loop p (x + 1) ?m' =
       Some (take (unat r + unat (x + 1)) ?m' @ replicate (80 - unat (x + 1)) 0xFF00
             @ drop (unat r + 80) ?m')"
      using "1.prems" True x1 st by (intro "1.IH") (simp_all add: vga_simps word_less_nat_alt)
    have "80 - unat x = Suc (80 - Suc (unat x))"
      using True by (simp add: word_less_nat_alt)
    then show ?thesis
      using True ih st x1 lt
      by (simp add: blank_line_loop.simps [of p x m] vga_simps take_Suc_update)
  next
    case False
    then have "unat x = 80" using "1.prems" by (simp add: word_less_nat_alt)
    then show ?thesis using False by (simp add: blank_line_loop.simps [of p x m] vga_simps)
  qed
qed
lemma terminal_blank_line_row:
  assumes "length m = VGA_WIDTH * VGA_HEIGHT" "unat r + 80 \<le> VGA_WIDTH * VGA_HEIGHT"
  shows "terminal_blank_line (elem_addr VGA_BASE r) m =
         Some (take (unat r) m @ replicate 80 0xFF00 @ drop (unat r + 80) m)"
  using blank_line_loop_row [OF refl assms, of 0] by (simp add: terminal_blank_line_def)

lemma line_copy_loop_rows:
  assumes "fp = elem_addr VGA_BASE a" "dp = elem_addr VGA_BASE b" "unat b \<le> unat a"
    "unat a + unat len \<le> VGA_WIDTH * VGA_HEIGHT" "length m = VGA_WIDTH * VGA_HEIGHT"
    "unat i \<le> unat len"
  shows "line_copy_loop fp dp len i m =
         Some (take (unat b + unat i) m @ take (unat len - unat i) (drop (unat a + unat i) m)
               @ drop (unat b + unat len) m, len)"
  using assms
proof (induction fp dp len i m rule: line_copy_loop.induct)
  case (1 fp dp len i m)
  show ?case
  proof (cases "i < len")
    case True
    have il: "unat i < unat len" using True by (simp add: word_less_nat_alt)
    have ai: "unat (a + i) = unat a + unat i" and bi: "unat (b + i) = unat b + unat i"
      using "1.prems" il by (simp_all add: unat_add_small vga_grid_size)
    have lta: "unat a + unat i < length m" and ltb: "unat b + unat i < length m"
      using "1.prems" il by simp_all
    let ?v = "m ! (unat a + unat i)"
    let ?m' = "m[unat b + unat i := ?v]"
    have ld: "vga_load fp i m = Some ?v"
      using "1.prems" lta ai by (simp add: vga_load_row vga_load_base)
    have st: "vga_store dp i ?v m = Some ?m'"
      using "1.prems" ltb bi by (simp add: vga_store_row vga_store_base)
    have i1: "unat (i + 1) = Suc (unat i)" using True by (rule word_less_unat_Suc)
    have ih: "line_copy_loop fp dp len (i + 1) ?m' =
       Some (take (unat b + unat (i + 1)) ?m' @ take (unat len - unat (i + 1)) (drop (unat a + unat (i + 1)) ?m')
             @ drop (unat b + unat len) ?m', len)"
      using "1.prems" i1 il by (intro "1.IH" [OF True ld st]) simp_all
    have d1: "drop (Suc (unat a + unat i)) ?m' = drop (Suc (unat a + unat i)) m"
      using "1.prems" by simp
    have d2: "drop (unat b + unat len) ?m' = drop (unat b + unat len) m"
      using il by simp
    have t: "take (unat len - unat i) (drop (unat a + unat i) m) =
             ?v # take (unat len - Suc (unat i)) (drop (Suc (unat a + unat i)) m)"
      using lta il by (simp add: take_drop_Suc_nth)
    show ?thesis
      using True ld st ih i1 ltb d1 d2 t
      by (simp add: line_copy_loop.simps [of fp dp len i m] take_Suc_update)
  next
    case False
    have stop: "line_copy_loop fp dp len i m = Some (m, i)"
      using False by (simp add: line_copy_loop.simps [of fp dp len i m])
    have "i = len" using False "1.prems" by (simp add: word_less_nat_alt word_unat_eq_iff)
    then show ?thesis using stop by simp
  qed
qed
text \<open>
  C9. \<open>terminal_line_copy\<close> from a cell \<open>a\<close> of the grid to a cell \<open>b \<le> a\<close>,
  over \<open>len\<close> cells that stay inside the grid, returns \<open>len\<close> and leaves the
  memory that \<open>memmove\<close> would: copying forwards is correct when the destination
  lies before the source, even when the two ranges overlap.
\<close>

theorem terminal_line_copy_move:
  assumes "unat b \<le> unat a" "unat a + unat len \<le> VGA_WIDTH * VGA_HEIGHT"
    and "length m = VGA_WIDTH * VGA_HEIGHT"
  shows "terminal_line_copy (elem_addr VGA_BASE a) (elem_addr VGA_BASE b) len m =
         Some (move_cells (unat a) (unat b) (unat len) m, len)"
  using line_copy_loop_rows [OF refl refl assms, of 0]
  by (simp add: terminal_line_copy_def move_cells_def)

theorem terminal_line_copy_move_witness:
  "terminal_line_copy (elem_addr VGA_BASE 80) (elem_addr VGA_BASE 0) 80
     (replicate 2000 0) = Some (move_cells 80 0 80 (replicate 2000 0), 80)"
  using terminal_line_copy_move [of 0 80 80 "replicate 2000 0"]
  by (simp add: vga_grid_size)

end
