(* ===== verification/VGA_Terminal.thy ===== *)
theory VGA_Terminal
  imports VGA_Codec VGA_Memory
begin

text \<open>
  The terminal state of \<open>src/kernel.c\<close> (lines 56--59): the global cursor
  \<open>terminal_row\<close>/\<open>terminal_column\<close>, the current attribute
  \<open>terminal_color\<close> and the pointer \<open>terminal_buffer\<close>, together with the
  display memory they write.  The operations here are \<open>terminal_initialize\<close>
  (lines 61--73), \<open>terminal_blank\<close> (lines 75--84), \<open>terminal_setcolor\<close>
  (lines 104--107) and \<open>terminal_putentryat\<close> (lines 109--113).  Before
  \<open>terminal_initialize\<close> the globals hold their static initial value 0, so the
  buffer pointer is null.
\<close>

record kstate =
  terminal_row :: size_t
  terminal_column :: size_t
  terminal_color :: uint8
  terminal_buffer :: addr
  vga_text :: vga_mem

text \<open>The machine at boot: zero-initialised globals, and whatever the firmware left
  on the screen.\<close>

definition boot_state :: "vga_mem \<Rightarrow> kstate" where
  "boot_state m =
     \<lparr>terminal_row = 0, terminal_column = 0, terminal_color = 0,
      terminal_buffer = 0, vga_text = m\<rparr>"

subsection \<open>Filling the screen\<close>

text \<open>
  The doubly nested loop of \<open>terminal_blank\<close>, and identically of
  \<open>terminal_initialize\<close>:
  \<open>for y < VGA_HEIGHT: for x < VGA_WIDTH: terminal_buffer[y * VGA_WIDTH + x] =
  vga_entry(' ', terminal_color)\<close>, the index computed in \<open>size_t\<close>.
\<close>

function fill_row_loop :: "addr \<Rightarrow> uint8 \<Rightarrow> size_t \<Rightarrow> size_t \<Rightarrow> vga_mem \<Rightarrow> vga_mem option" where
  "fill_row_loop buf color y x m =
     (if x < word_of_nat VGA_WIDTH then
        (case vga_store buf (y * word_of_nat VGA_WIDTH + x) (vga_entry 32 color) m of
           None \<Rightarrow> None
         | Some m' \<Rightarrow> fill_row_loop buf color y (x + 1) m')
      else Some m)"
  by pat_completeness auto
termination
  by (relation "measure (\<lambda>(b, c, y, x, m). unat (word_of_nat VGA_WIDTH :: size_t) - unat x)")
     (auto intro: word_less_measure_decreases)

function fill_loop :: "addr \<Rightarrow> uint8 \<Rightarrow> size_t \<Rightarrow> vga_mem \<Rightarrow> vga_mem option" where
  "fill_loop buf color y m =
     (if y < word_of_nat VGA_HEIGHT then
        (case fill_row_loop buf color y 0 m of
           None \<Rightarrow> None
         | Some m' \<Rightarrow> fill_loop buf color (y + 1) m')
      else Some m)"
  by pat_completeness auto
termination
  by (relation "measure (\<lambda>(b, c, y, m). unat (word_of_nat VGA_HEIGHT :: size_t) - unat y)")
     (auto intro: word_less_measure_decreases)

definition terminal_initialize :: "kstate \<Rightarrow> kstate option" where
  "terminal_initialize s =
     (let s1 = s\<lparr>terminal_row := 0, terminal_column := 0,
                 terminal_color := vga_entry_color VGA_COLOR_GREEN VGA_COLOR_BLACK,
                 terminal_buffer := VGA_BASE\<rparr>
      in case fill_loop (terminal_buffer s1) (terminal_color s1) 0 (vga_text s1) of
           None \<Rightarrow> None
         | Some m \<Rightarrow> Some (s1\<lparr>vga_text := m\<rparr>))"

definition terminal_blank :: "kstate \<Rightarrow> kstate option" where
  "terminal_blank s =
     (case fill_loop (terminal_buffer s) (terminal_color s) 0 (vga_text s) of
        None \<Rightarrow> None
      | Some m \<Rightarrow> Some (s\<lparr>vga_text := m\<rparr>))"

definition terminal_setcolor :: "uint8 \<Rightarrow> kstate \<Rightarrow> kstate" where
  "terminal_setcolor color s = s\<lparr>terminal_color := color\<rparr>"

definition terminal_putentryat :: "uint8 \<Rightarrow> uint8 \<Rightarrow> size_t \<Rightarrow> size_t \<Rightarrow> kstate \<Rightarrow> kstate option" where
  "terminal_putentryat c color x y s =
     (let index = y * word_of_nat VGA_WIDTH + x
      in case vga_store (terminal_buffer s) index (vga_entry c color) (vga_text s) of
           None \<Rightarrow> None
         | Some m \<Rightarrow> Some (s\<lparr>vga_text := m\<rparr>))"

subsection \<open>The terminal invariant\<close>

text \<open>
  What every public operation keeps once the terminal is initialised: the buffer
  pointer is the grid's base address, the grid has its 2000 cells and the cursor
  is on the screen.
\<close>

definition terminal_inv :: "kstate \<Rightarrow> bool" where
  "terminal_inv s \<longleftrightarrow>
     terminal_buffer s = VGA_BASE \<and> length (vga_text s) = VGA_WIDTH * VGA_HEIGHT \<and>
     unat (terminal_row s) < VGA_HEIGHT \<and> unat (terminal_column s) < VGA_WIDTH"

text \<open>The cell at column \<open>x\<close>, row \<open>y\<close> of the screen.\<close>

definition cell_at :: "kstate \<Rightarrow> nat \<Rightarrow> nat \<Rightarrow> uint16" where
  "cell_at s x y = vga_text s ! (y * VGA_WIDTH + x)"

declare fill_row_loop.simps [simp del] fill_loop.simps [simp del]

subsection \<open>Properties of the fill loops and of initialisation\<close>

lemma unat_grid_index:
  fixes y x :: size_t
  assumes "unat y < VGA_HEIGHT" "unat x < VGA_WIDTH"
  shows "unat (y * word_of_nat VGA_WIDTH + x) = unat y * VGA_WIDTH + unat x"
proof -
  have y: "unat y < 25" and x: "unat x < 80" using assms by (simp_all add: VGA_WIDTH_def VGA_HEIGHT_def)
  have "unat y * unat (80 :: size_t) < 2 ^ LENGTH(32)" using y by simp
  then have m: "unat (y * 80) = unat y * 80" by (simp add: unat_mult_lem [THEN iffD1])
  have "unat (y * 80) + unat x < 2 ^ 32" using m y x by simp
  then show ?thesis using m by (simp add: unat_add_small VGA_WIDTH_def)
qed

lemma fill_row_loop_row:
  assumes "buf = VGA_BASE" "length m = VGA_WIDTH * VGA_HEIGHT" "unat y < VGA_HEIGHT" "unat x \<le> 80"
  shows "fill_row_loop buf c y x m =
         Some (take (80 * unat y + unat x) m @ replicate (80 - unat x) (vga_entry 32 c)
               @ drop (80 * unat y + 80) m)"
  using assms
proof (induction buf c y x m rule: fill_row_loop.induct)
  case (1 buf c y x m)
  show ?case
  proof (cases "x < 80")
    case True
    have ix: "unat (y * word_of_nat VGA_WIDTH + x) = 80 * unat y + unat x"
      using unat_grid_index [of y x] "1.prems" True by (simp add: word_less_nat_alt VGA_WIDTH_def)
    have lt: "80 * unat y + unat x < length m"
      using True "1.prems" by (simp add: word_less_nat_alt VGA_WIDTH_def VGA_HEIGHT_def)
    let ?m' = "m[80 * unat y + unat x := vga_entry 32 c]"
    have st: "vga_store buf (y * word_of_nat VGA_WIDTH + x) (vga_entry 32 c) m = Some ?m'"
      using "1.prems" lt ix by (simp add: vga_store_base)
    have x1: "unat (x + 1) = Suc (unat x)" using True by (rule word_less_unat_Suc)
    have ih: "fill_row_loop buf c y (x + 1) ?m' =
       Some (take (80 * unat y + unat (x + 1)) ?m' @ replicate (80 - unat (x + 1)) (vga_entry 32 c)
             @ drop (80 * unat y + 80) ?m')"
      using "1.prems" True x1 st by (intro "1.IH") (simp_all add: vga_simps word_less_nat_alt)
    have "80 - unat x = Suc (80 - Suc (unat x))"
      using True by (simp add: word_less_nat_alt)
    then show ?thesis
      using True ih st x1 lt
      by (simp add: fill_row_loop.simps [of buf c y x m] vga_simps take_Suc_update)
  next
    case False
    then have "unat x = 80" using "1.prems" by (simp add: word_less_nat_alt)
    then show ?thesis using False by (simp add: fill_row_loop.simps [of buf c y x m] vga_simps)
  qed
qed

lemma fill_loop_rows:
  assumes "buf = VGA_BASE" "length m = VGA_WIDTH * VGA_HEIGHT" "unat y \<le> 25"
  shows "fill_loop buf c y m =
         Some (take (80 * unat y) m @ replicate (80 * (25 - unat y)) (vga_entry 32 c))"
  using assms
proof (induction buf c y m rule: fill_loop.induct)
  case (1 buf c y m)
  show ?case
  proof (cases "y < 25")
    case True
    have yl: "unat y < 25" using True by (simp add: word_less_nat_alt)
    let ?m' = "take (80 * unat y) m @ replicate 80 (vga_entry 32 c) @ drop (80 * unat y + 80) m"
    have row: "fill_row_loop buf c y 0 m = Some ?m'"
      using fill_row_loop_row [of buf m y 0 c] "1.prems" yl by (simp add: VGA_HEIGHT_def)
    have y1: "unat (y + 1) = Suc (unat y)" using True by (rule word_less_unat_Suc)
    have len: "length ?m' = VGA_WIDTH * VGA_HEIGHT"
      using "1.prems" yl by (simp add: vga_grid_size)
    have ih: "fill_loop buf c (y + 1) ?m' =
       Some (take (80 * unat (y + 1)) ?m' @ replicate (80 * (25 - unat (y + 1))) (vga_entry 32 c))"
      using True row len y1 yl "1.prems" by (intro "1.IH") (simp_all add: vga_simps VGA_HEIGHT_def)
    have tk: "take (80 * Suc (unat y)) ?m' = take (80 * unat y) m @ replicate 80 (vga_entry 32 c)"
      using "1.prems" yl by (simp add: vga_grid_size)
    have rp: "replicate 80 (vga_entry 32 c) @ replicate (80 * (25 - Suc (unat y))) (vga_entry 32 c)
              = replicate (80 * (25 - unat y)) (vga_entry 32 c)"
      using yl by (simp add: replicate_add [symmetric])
    have step: "fill_loop buf c y m = fill_loop buf c (y + 1) ?m'"
      using True row by (simp add: fill_loop.simps [of buf c y m] vga_simps)
    have "fill_loop buf c (y + 1) ?m' = Some (take (80 * unat y) m @
            (replicate 80 (vga_entry 32 c) @ replicate (80 * (25 - Suc (unat y))) (vga_entry 32 c)))"
      using ih by (simp only: y1 tk append_assoc)
    then show ?thesis using step rp by simp
  next
    case False
    have stop: "fill_loop buf c y m = Some m"
      using False by (simp add: fill_loop.simps [of buf c y m] vga_simps)
    have "unat y = 25" using False "1.prems" by (simp add: word_less_nat_alt)
    then show ?thesis using stop "1.prems" by (simp add: vga_grid_size)
  qed
qed
lemma fill_loop_screen:
  "length m = VGA_WIDTH * VGA_HEIGHT \<Longrightarrow>
   fill_loop VGA_BASE c 0 m = Some (replicate (VGA_WIDTH * VGA_HEIGHT) (vga_entry 32 c))"
  using fill_loop_rows [OF refl, of m 0 c] by (simp add: vga_grid_size)

lemma terminal_initialize_result:
  assumes "length (vga_text s) = VGA_WIDTH * VGA_HEIGHT"
  shows "terminal_initialize s =
         Some (s\<lparr>terminal_row := 0, terminal_column := 0,
                 terminal_color := vga_entry_color VGA_COLOR_GREEN VGA_COLOR_BLACK,
                 terminal_buffer := VGA_BASE,
                 vga_text := replicate (VGA_WIDTH * VGA_HEIGHT)
                   (vga_entry 32 (vga_entry_color VGA_COLOR_GREEN VGA_COLOR_BLACK))\<rparr>)"
  using assms by (simp add: terminal_initialize_def fill_loop_screen)

lemma terminal_inv_cursor_update [vga_simps]:
  "terminal_inv (s\<lparr>terminal_row := r, terminal_column := c\<rparr>) \<longleftrightarrow>
   terminal_buffer s = VGA_BASE \<and> length (vga_text s) = VGA_WIDTH * VGA_HEIGHT \<and>
   unat r < VGA_HEIGHT \<and> unat c < VGA_WIDTH"
  by (simp add: terminal_inv_def)

lemma terminal_inv_text_update [vga_simps]:
  "length m = length (vga_text s) \<Longrightarrow> terminal_inv (s\<lparr>vga_text := m\<rparr>) = terminal_inv s"
  by (simp add: terminal_inv_def)

text \<open>
  C8. From any machine state whose display memory has the grid's size,
  \<open>terminal_initialize\<close> succeeds, puts the cursor at (0, 0), selects green on
  black, establishes the terminal invariant, and leaves every cell of the grid a
  space in that attribute.
\<close>

theorem terminal_initialize_correct:
  assumes "length (vga_text s) = VGA_WIDTH * VGA_HEIGHT"
  shows "\<exists>s'. terminal_initialize s = Some s' \<and> terminal_inv s' \<and>
           terminal_row s' = 0 \<and> terminal_column s' = 0 \<and>
           terminal_color s' = vga_entry_color VGA_COLOR_GREEN VGA_COLOR_BLACK \<and>
           (\<forall>x y. x < VGA_WIDTH \<and> y < VGA_HEIGHT \<longrightarrow>
              cell_at s' x y = vga_entry 32 (vga_entry_color VGA_COLOR_GREEN VGA_COLOR_BLACK))"
proof -
  have "y * VGA_WIDTH + x < VGA_WIDTH * VGA_HEIGHT" if "x < VGA_WIDTH" "y < VGA_HEIGHT" for x y
    using that by (simp add: VGA_WIDTH_def VGA_HEIGHT_def)
  then show ?thesis
    using assms by (simp add: terminal_initialize_result terminal_inv_def cell_at_def)
       (simp add: VGA_WIDTH_def VGA_HEIGHT_def)
qed

theorem terminal_initialize_correct_witness:
  "\<exists>s'. terminal_initialize (boot_state (replicate 2000 0)) = Some s' \<and> terminal_inv s' \<and>
     terminal_row s' = 0 \<and> terminal_column s' = 0 \<and>
     terminal_color s' = vga_entry_color VGA_COLOR_GREEN VGA_COLOR_BLACK \<and>
     (\<forall>x y. x < VGA_WIDTH \<and> y < VGA_HEIGHT \<longrightarrow>
        cell_at s' x y = vga_entry 32 (vga_entry_color VGA_COLOR_GREEN VGA_COLOR_BLACK))"
  using terminal_initialize_correct [of "boot_state (replicate 2000 0)"]
  by (simp add: boot_state_def vga_grid_size)

lemma terminal_blank_result:
  "terminal_inv s \<Longrightarrow>
   terminal_blank s = Some (s\<lparr>vga_text := replicate (VGA_WIDTH * VGA_HEIGHT) (vga_entry 32 (terminal_color s))\<rparr>)"
  by (simp add: terminal_blank_def terminal_inv_def fill_loop_screen)

lemma terminal_putentryat_result:
  assumes "terminal_inv s" "unat x < VGA_WIDTH" "unat y < VGA_HEIGHT"
  shows "terminal_putentryat c color x y s =
         Some (s\<lparr>vga_text := (vga_text s)[unat y * VGA_WIDTH + unat x := vga_entry c color]\<rparr>)"
proof -
  have i: "unat (y * word_of_nat VGA_WIDTH + x) = unat y * VGA_WIDTH + unat x"
    by (rule unat_grid_index [OF assms(3,2)])
  have "unat y * VGA_WIDTH + unat x < VGA_WIDTH * VGA_HEIGHT"
    using assms(2,3) by (simp add: VGA_WIDTH_def VGA_HEIGHT_def)
  then show ?thesis
    using assms(1) i by (simp add: terminal_putentryat_def terminal_inv_def vga_store_base Let_def)
qed

end
