(* ===== verification/VGA_Scroll.thy ===== *)
theory VGA_Scroll
  imports VGA_Terminal
begin

text \<open>
  The scroll engine \<open>terminal_scroll_newline\<close> of \<open>src/kernel.c\<close>
  (lines 115--121): for each row \<open>i\<close> from 0 to 23 it blanks row \<open>i\<close> with
  \<open>terminal_blank_line\<close> and then copies row \<open>i + 1\<close> over it with
  \<open>terminal_line_copy\<close>.  The loop counter is a C \<open>int\<close> that stays in
  \<open>0..24\<close>; \<open>&terminal_buffer[i*VGA_WIDTH]\<close> is the address of the row.

  The lemmas show what the loop really does: rows 1--24 move up by one and the
  last row keeps its old contents, because each blank is overwritten by the copy
  that follows it and row 24 is never blanked.  The spec (section 4.5) and the
  natural reading of the code ask for a blank last row; \<open>scroll_spec\<close> states
  that behaviour, and the divergence is proved.
\<close>

function scroll_loop :: "addr \<Rightarrow> nat \<Rightarrow> vga_mem \<Rightarrow> vga_mem option" where
  "scroll_loop buf i m =
     (if i < VGA_HEIGHT - 1 then
        (case terminal_blank_line (elem_addr buf (word_of_nat (i * VGA_WIDTH))) m of
           None \<Rightarrow> None
         | Some m1 \<Rightarrow>
             (case terminal_line_copy (elem_addr buf (word_of_nat ((i + 1) * VGA_WIDTH)))
                     (elem_addr buf (word_of_nat (i * VGA_WIDTH))) (word_of_nat VGA_WIDTH) m1 of
                None \<Rightarrow> None
              | Some (m2, _) \<Rightarrow> scroll_loop buf (i + 1) m2))
      else Some m)"
  by pat_completeness auto
termination
  by (relation "measure (\<lambda>(b, i, m). VGA_HEIGHT - 1 - i)") auto

definition terminal_scroll_newline :: "kstate \<Rightarrow> kstate option" where
  "terminal_scroll_newline s =
     (case scroll_loop (terminal_buffer s) 0 (vga_text s) of
        None \<Rightarrow> None
      | Some m \<Rightarrow> Some (s\<lparr>vga_text := m\<rparr>))"

text \<open>
  The behaviour the spec describes: every row moves up by one and the last row
  becomes blank lines of the cell \<open>0xFF00\<close> that \<open>terminal_blank_line\<close> writes.
\<close>

definition scroll_spec :: "vga_mem \<Rightarrow> vga_mem" where
  "scroll_spec m = drop VGA_WIDTH m @ replicate VGA_WIDTH 0xFF00"

declare scroll_loop.simps [simp del]

subsection \<open>What the scroll loop does\<close>

lemma unat_row_offset:
  assumes "i \<le> VGA_HEIGHT"
  shows "unat (word_of_nat (i * VGA_WIDTH) :: size_t) = 80 * i"
proof -
  have "i * VGA_WIDTH < 2 ^ LENGTH(32)" using assms by (simp add: VGA_WIDTH_def VGA_HEIGHT_def)
  then show ?thesis by (simp only: unat_of_nat_small) (simp add: VGA_WIDTH_def)
qed

lemma scroll_loop_rows:
  assumes "buf = VGA_BASE" "length m = VGA_WIDTH * VGA_HEIGHT" "i \<le> VGA_HEIGHT - 1"
  shows "scroll_loop buf i m = Some (take (80 * i) m @ drop (80 * (i + 1)) m @ drop 1920 m)"
  using assms
proof (induction buf i m rule: scroll_loop.induct)
  case (1 buf i m)
  show ?case
  proof (cases "i < VGA_HEIGHT - 1")
    case True
    have i24: "i < 24" using True by (simp add: VGA_HEIGHT_def)
    have r0: "unat (word_of_nat (i * VGA_WIDTH) :: size_t) = 80 * i"
      by (rule unat_row_offset) (use i24 in \<open>simp add: VGA_HEIGHT_def\<close>)
    have r1: "unat (word_of_nat ((i + 1) * VGA_WIDTH) :: size_t) = 80 * (i + 1)"
      by (rule unat_row_offset) (use i24 in \<open>simp add: VGA_HEIGHT_def\<close>)
    let ?m1 = "take (80 * i) m @ replicate 80 0xFF00 @ drop (80 * i + 80) m"
    have bl: "terminal_blank_line (elem_addr buf (word_of_nat (i * VGA_WIDTH))) m = Some ?m1"
      using terminal_blank_line_row [of m "word_of_nat (i * VGA_WIDTH)"] "1.prems" r0 i24
      by (simp add: vga_grid_size)
    have len1: "length ?m1 = VGA_WIDTH * VGA_HEIGHT" using "1.prems" i24 by (simp add: vga_grid_size)
    let ?m2 = "move_cells (80 * (i + 1)) (80 * i) 80 ?m1"
    have cp: "terminal_line_copy (elem_addr buf (word_of_nat ((i + 1) * VGA_WIDTH)))
                (elem_addr buf (word_of_nat (i * VGA_WIDTH))) (word_of_nat VGA_WIDTH) ?m1
              = Some (?m2, word_of_nat VGA_WIDTH)"
      using terminal_line_copy_move [OF _ _ len1, of "word_of_nat (i * VGA_WIDTH)"
              "word_of_nat ((i + 1) * VGA_WIDTH)" "word_of_nat VGA_WIDTH"] "1.prems" r0 r1 i24
      by (simp add: vga_simps)
    have m2: "?m2 = take (80 * i) m @ take 80 (drop (80 * i + 80) m) @ drop (80 * i + 80) m"
      using "1.prems" i24 by (simp add: move_cells_def vga_grid_size min_def)
    have len2: "length ?m2 = VGA_WIDTH * VGA_HEIGHT" using "1.prems" i24 m2 by (simp add: vga_grid_size)
    have ih: "scroll_loop buf (i + 1) ?m2 =
              Some (take (80 * (i + 1)) ?m2 @ drop (80 * (i + 1 + 1)) ?m2 @ drop 1920 ?m2)"
      by (rule "1.IH" [OF True bl cp refl])
         (use "1.prems" len2 True in \<open>simp_all add: VGA_HEIGHT_def\<close>)
    have step: "scroll_loop buf i m = scroll_loop buf (i + 1) ?m2"
      using True bl cp by (simp add: scroll_loop.simps [of buf i m])
    have l0: "length (take (80 * i) m) = 80 * i"
      and l1: "length (take 80 (drop (80 * i + 80) m)) = 80"
      using "1.prems" i24 by (simp_all add: vga_grid_size)
    have tk2: "take (80 * (i + 1)) ?m2 = take (80 * i) m @ take 80 (drop (80 * i + 80) m)"
      using l0 l1 m2 by simp
    have dr2: "drop (80 * (i + 1 + 1)) ?m2 = drop (80 * i + 80 + 80) m"
      using l0 l1 m2 by simp
    have dr3: "drop 1920 ?m2 = drop 1920 m"
      using l0 l1 m2 i24 by simp
    have "take 80 (drop (80 * i + 80) m) @ drop (80 * i + 80 + 80) m = drop (80 * i + 80) m"
      by (rule take_drop_split)
    then show ?thesis
      using step ih tk2 dr2 dr3 by (simp add: algebra_simps)
  next
    case False
    have stop: "scroll_loop buf i m = Some m"
      using False by (simp add: scroll_loop.simps [of buf i m])
    have "i = 24" using False "1.prems" by (simp add: VGA_HEIGHT_def)
    then show ?thesis using stop "1.prems" by (simp add: vga_grid_size)
  qed
qed

lemma scroll_loop_screen:
  "length m = VGA_WIDTH * VGA_HEIGHT \<Longrightarrow>
   scroll_loop VGA_BASE 0 m = Some (drop VGA_WIDTH m @ drop (VGA_WIDTH * (VGA_HEIGHT - 1)) m)"
  using scroll_loop_rows [OF refl, of m 0] by (simp add: VGA_WIDTH_def VGA_HEIGHT_def)

lemma terminal_scroll_newline_result:
  "terminal_inv s \<Longrightarrow>
   terminal_scroll_newline s =
     Some (s\<lparr>vga_text := drop VGA_WIDTH (vga_text s) @
                           drop (VGA_WIDTH * (VGA_HEIGHT - 1)) (vga_text s)\<rparr>)"
  by (simp add: terminal_scroll_newline_def terminal_inv_def scroll_loop_screen)

lemma scrolled_cell_upper:
  assumes "length m = VGA_WIDTH * VGA_HEIGHT" "x < VGA_WIDTH" "y < VGA_HEIGHT - 1"
  shows "(drop VGA_WIDTH m @ drop (VGA_WIDTH * (VGA_HEIGHT - 1)) m) ! (y * VGA_WIDTH + x)
         = m ! ((y + 1) * VGA_WIDTH + x)"
proof -
  have "y * VGA_WIDTH + x < length (drop VGA_WIDTH m)"
    using assms by (simp add: VGA_WIDTH_def VGA_HEIGHT_def)
  then show ?thesis using assms by (simp add: nth_append algebra_simps)
qed

lemma scrolled_cell_last:
  assumes "length m = VGA_WIDTH * VGA_HEIGHT" "x < VGA_WIDTH"
  shows "(drop VGA_WIDTH m @ drop (VGA_WIDTH * (VGA_HEIGHT - 1)) m) ! ((VGA_HEIGHT - 1) * VGA_WIDTH + x)
         = m ! ((VGA_HEIGHT - 1) * VGA_WIDTH + x)"
  using assms by (simp add: nth_append VGA_WIDTH_def VGA_HEIGHT_def)

text \<open>
  C1. On an initialised terminal, \<open>terminal_scroll_newline\<close> always succeeds,
  keeps the invariant and the cursor, moves every row below the first up by one
  row, cell by cell, and leaves the last row as it was.
\<close>

theorem terminal_scroll_newline_shift:
  assumes "terminal_inv s"
  shows "\<exists>s'. terminal_scroll_newline s = Some s' \<and> terminal_inv s' \<and>
           terminal_row s' = terminal_row s \<and> terminal_column s' = terminal_column s \<and>
           terminal_color s' = terminal_color s \<and>
           (\<forall>x y. x < VGA_WIDTH \<and> y < VGA_HEIGHT - 1 \<longrightarrow> cell_at s' x y = cell_at s x (y + 1)) \<and>
           (\<forall>x. x < VGA_WIDTH \<longrightarrow>
              cell_at s' x (VGA_HEIGHT - 1) = cell_at s x (VGA_HEIGHT - 1))"
proof -
  have len: "length (vga_text s) = VGA_WIDTH * VGA_HEIGHT"
    using assms by (simp add: terminal_inv_def)
  have "length (drop VGA_WIDTH (vga_text s) @ drop (VGA_WIDTH * (VGA_HEIGHT - 1)) (vga_text s))
        = length (vga_text s)"
    using len by (simp add: VGA_WIDTH_def VGA_HEIGHT_def)
  then show ?thesis
    using assms len scrolled_cell_upper [OF len] scrolled_cell_last [OF len]
    by (simp add: terminal_scroll_newline_result terminal_inv_text_update cell_at_def)
qed

theorem terminal_scroll_newline_shift_witness:
  "\<exists>s'. terminal_scroll_newline
          \<lparr>terminal_row = 24, terminal_column = 0, terminal_color = 2,
           terminal_buffer = VGA_BASE, vga_text = replicate 2000 0x0220\<rparr> = Some s' \<and>
        terminal_row s' = 24"
  using terminal_scroll_newline_shift
    [of "\<lparr>terminal_row = 24, terminal_column = 0, terminal_color = 2,
          terminal_buffer = VGA_BASE, vga_text = replicate 2000 0x0220\<rparr>"]
  by (auto simp: terminal_inv_def vga_grid_size VGA_HEIGHT_def VGA_WIDTH_def)

text \<open>
  C2. The code's scroll matches the specified one (rows up, last row blanked
  with \<open>0xFF00\<close>) exactly when the last row already held blank cells: in every
  other state the last row keeps its stale contents instead of being cleared.
\<close>

theorem terminal_scroll_newline_vs_spec:
  assumes "terminal_inv s" and "terminal_scroll_newline s = Some s'"
  shows "vga_text s' = scroll_spec (vga_text s) \<longleftrightarrow>
         drop (VGA_WIDTH * (VGA_HEIGHT - 1)) (vga_text s) = replicate VGA_WIDTH 0xFF00"
  using assms by (auto simp: terminal_scroll_newline_result scroll_spec_def)

theorem terminal_scroll_newline_vs_spec_witness:
  "terminal_scroll_newline
     \<lparr>terminal_row = 24, terminal_column = 0, terminal_color = 2,
      terminal_buffer = VGA_BASE, vga_text = replicate 2000 0x0220\<rparr> =
   Some \<lparr>terminal_row = 24, terminal_column = 0, terminal_color = 2,
      terminal_buffer = VGA_BASE, vga_text = replicate 2000 0x0220\<rparr> \<and>
   replicate 2000 0x0220 \<noteq> scroll_spec (replicate 2000 (0x0220 :: uint16))"
proof -
  let ?s = "\<lparr>terminal_row = 24, terminal_column = 0, terminal_color = 2,
      terminal_buffer = VGA_BASE, vga_text = replicate 2000 (0x0220 :: uint16)\<rparr>"
  have inv: "terminal_inv ?s" by (simp add: terminal_inv_def vga_grid_size VGA_HEIGHT_def VGA_WIDTH_def)
  have sc: "terminal_scroll_newline ?s = Some ?s"
    using inv by (simp add: terminal_scroll_newline_result VGA_WIDTH_def VGA_HEIGHT_def
                  replicate_add [symmetric])
  have "drop (VGA_WIDTH * (VGA_HEIGHT - 1)) (replicate 2000 (0x0220 :: uint16))
        \<noteq> replicate VGA_WIDTH 0xFF00"
    by (simp add: VGA_WIDTH_def VGA_HEIGHT_def)
  then show ?thesis
    using terminal_scroll_newline_vs_spec [OF inv sc] sc by simp
qed

end
