(* ===== verification/VGA_Writer.thy ===== *)
theory VGA_Writer
  imports VGA_Scroll
begin

text \<open>
  The line discipline of \<open>src/kernel.c\<close>: \<open>terminal_putchar\<close> (lines
  123--143), \<open>terminal_write\<close> (lines 145--149), \<open>strlen\<close> (lines 45--51)
  and \<open>terminal_writestring\<close> (lines 151--154).

  A character is the byte of the C \<open>char\<close> (its bit pattern; \<open>'\n'\<close> is 10).
  The data a \<open>const char *\<close> points at is the list of bytes from that address to
  the end of the object; reading past the end is undefined behaviour and is
  \<open>None\<close>.  \<open>strlen\<close> scans with a \<open>size_t\<close> counter, so it is a
  \<open>partial_function (option)\<close>: on a byte sequence with no NUL it has no
  result.
\<close>

definition terminal_putchar :: "uint8 \<Rightarrow> kstate \<Rightarrow> kstate option" where
  "terminal_putchar c s =
     (if c = 10 then
        (let s1 = s\<lparr>terminal_row := terminal_row s + 1\<rparr>
         in if terminal_row s1 = word_of_nat VGA_HEIGHT then
              (case terminal_scroll_newline (s1\<lparr>terminal_row := word_of_nat VGA_HEIGHT - 1\<rparr>) of
                 None \<Rightarrow> None
               | Some s2 \<Rightarrow> Some (s2\<lparr>terminal_column := 0\<rparr>))
            else Some (s1\<lparr>terminal_column := 0\<rparr>))
      else
        (case terminal_putentryat c (terminal_color s) (terminal_column s) (terminal_row s) s of
           None \<Rightarrow> None
         | Some s1 \<Rightarrow>
             (let s2 = s1\<lparr>terminal_column := terminal_column s1 + 1\<rparr>
              in if terminal_column s2 = word_of_nat VGA_WIDTH then
                   (let s3 = s2\<lparr>terminal_column := 0, terminal_row := terminal_row s2 + 1\<rparr>
                    in if terminal_row s3 = word_of_nat VGA_HEIGHT then
                         terminal_scroll_newline (s3\<lparr>terminal_row := word_of_nat VGA_HEIGHT - 1\<rparr>)
                       else Some s3)
                 else Some s2)))"

function write_loop :: "uint8 list \<Rightarrow> size_t \<Rightarrow> size_t \<Rightarrow> kstate \<Rightarrow> kstate option" where
  "write_loop data sz i s =
     (if i < sz then
        (if unat i < length data then
           (case terminal_putchar (data ! unat i) s of
              None \<Rightarrow> None
            | Some s' \<Rightarrow> write_loop data sz (i + 1) s')
         else None)
      else Some s)"
  by pat_completeness auto
termination
  by (relation "measure (\<lambda>(d, n, i, s). unat n - unat i)")
     (auto intro: word_less_measure_decreases)

definition terminal_write :: "uint8 list \<Rightarrow> size_t \<Rightarrow> kstate \<Rightarrow> kstate option" where
  "terminal_write data sz s = write_loop data sz 0 s"

partial_function (option) strlen_loop :: "uint8 list \<Rightarrow> size_t \<Rightarrow> size_t option" where
  "strlen_loop str len =
     (if unat len < length str then
        (if str ! unat len \<noteq> 0 then strlen_loop str (len + 1) else Some len)
      else None)"

definition strlen :: "uint8 list \<Rightarrow> size_t option" where
  "strlen str = strlen_loop str 0"

definition terminal_writestring :: "uint8 list \<Rightarrow> kstate \<Rightarrow> kstate option" where
  "terminal_writestring data s =
     (case strlen data of
        None \<Rightarrow> None
      | Some n \<Rightarrow> terminal_write data n s)"

text \<open>A C string literal: its characters as bytes, and the terminating NUL.\<close>

definition c_str :: "string \<Rightarrow> uint8 list" where
  "c_str cs = map of_char cs @ [0]"

text \<open>
  The reference semantics of writing a sequence of characters: one
  \<open>terminal_putchar\<close> after the other, stopping at the first undefined access.
\<close>

fun putchars :: "uint8 list \<Rightarrow> kstate \<Rightarrow> kstate option" where
  "putchars [] s = Some s"
| "putchars (c # cs) s =
     (case terminal_putchar c s of None \<Rightarrow> None | Some s' \<Rightarrow> putchars cs s')"

declare write_loop.simps [simp del]

subsection \<open>\<open>terminal_putchar\<close>\<close>

lemma terminal_putchar_char:
  assumes inv: "terminal_inv s" and c: "c \<noteq> 10"
  shows "terminal_putchar c s =
    (let s1 = s\<lparr>vga_text := (vga_text s)[unat (terminal_row s) * VGA_WIDTH + unat (terminal_column s)
                  := vga_entry c (terminal_color s)]\<rparr>
     in if Suc (unat (terminal_column s)) < VGA_WIDTH then
          Some (s1\<lparr>terminal_column := terminal_column s + 1\<rparr>)
        else if Suc (unat (terminal_row s)) < VGA_HEIGHT then
          Some (s1\<lparr>terminal_column := 0, terminal_row := terminal_row s + 1\<rparr>)
        else terminal_scroll_newline (s1\<lparr>terminal_column := 0\<rparr>))"
proof -
  have r: "unat (terminal_row s) < VGA_HEIGHT" and k: "unat (terminal_column s) < VGA_WIDTH"
    using inv by (simp_all add: terminal_inv_def)
  have ce: "(terminal_column s + 1 = word_of_nat VGA_WIDTH) = (Suc (unat (terminal_column s)) = VGA_WIDTH)"
    using k by (intro word_succ_eq_nat) (simp_all add: VGA_WIDTH_def)
  have re: "(terminal_row s + 1 = word_of_nat VGA_HEIGHT) = (Suc (unat (terminal_row s)) = VGA_HEIGHT)"
    using r by (intro word_succ_eq_nat) (simp_all add: VGA_HEIGHT_def)
  have last: "terminal_row s + 1 = word_of_nat VGA_HEIGHT \<Longrightarrow>
      word_of_nat VGA_HEIGHT - 1 = terminal_row s"
    by (simp add: algebra_simps)
  show ?thesis
    using c k r ce re last
    by (auto simp: terminal_putchar_def terminal_putentryat_result [OF inv k r] Let_def
        vga_simps simp del: vga_height_word vga_width_word)
qed

lemma terminal_putchar_newline:
  assumes inv: "terminal_inv s"
  shows "terminal_putchar 10 s =
    (if Suc (unat (terminal_row s)) < VGA_HEIGHT then
       Some (s\<lparr>terminal_row := terminal_row s + 1, terminal_column := 0\<rparr>)
     else map_option (\<lambda>s2. s2\<lparr>terminal_column := 0\<rparr>) (terminal_scroll_newline s))"
proof -
  have r: "unat (terminal_row s) < VGA_HEIGHT"
    using inv by (simp add: terminal_inv_def)
  have re: "(terminal_row s + 1 = word_of_nat VGA_HEIGHT) = (Suc (unat (terminal_row s)) = VGA_HEIGHT)"
    using r by (intro word_succ_eq_nat) (simp_all add: VGA_HEIGHT_def)
  have last: "terminal_row s + 1 = word_of_nat VGA_HEIGHT \<Longrightarrow>
      word_of_nat VGA_HEIGHT - 1 = terminal_row s"
    by (simp add: algebra_simps)
  show ?thesis
    using r re last
    by (auto simp: terminal_putchar_def Let_def split: option.split
        simp del: vga_height_word vga_width_word)
qed

lemma terminal_inv_scroll:
  "terminal_inv s \<Longrightarrow> \<exists>s'. terminal_scroll_newline s = Some s' \<and> terminal_inv s' \<and>
     terminal_row s' = terminal_row s \<and> terminal_column s' = terminal_column s \<and>
     terminal_color s' = terminal_color s"
  by (simp add: terminal_scroll_newline_result terminal_inv_def VGA_WIDTH_def VGA_HEIGHT_def)

lemma terminal_putchar_inv:
  assumes "terminal_inv s"
  shows "\<exists>s'. terminal_putchar c s = Some s' \<and> terminal_inv s'"
proof (cases "c = 10")
  case True
  show ?thesis
  proof (cases "Suc (unat (terminal_row s)) < VGA_HEIGHT")
    case True
    have "unat (terminal_row s + 1) = Suc (unat (terminal_row s))"
      using True by (simp add: unat_add_small VGA_HEIGHT_def)
    then show ?thesis
      using assms True \<open>c = 10\<close>
      by (simp add: terminal_putchar_newline terminal_inv_def VGA_WIDTH_def)
  next
    case False
    then show ?thesis
      using assms terminal_inv_scroll [OF assms] \<open>c = 10\<close>
      by (auto simp: terminal_putchar_newline terminal_inv_def VGA_WIDTH_def)
  qed
next
  case False
  let ?s1 = "s\<lparr>vga_text := (vga_text s)[unat (terminal_row s) * VGA_WIDTH + unat (terminal_column s)
                  := vga_entry c (terminal_color s)]\<rparr>"
  have inv1: "terminal_inv ?s1" using assms by (simp add: terminal_inv_text_update)
  have inv2: "terminal_inv (?s1\<lparr>terminal_column := 0\<rparr>)"
    using inv1 by (simp add: terminal_inv_def VGA_WIDTH_def)
  have c1: "Suc (unat (terminal_column s)) < VGA_WIDTH \<Longrightarrow>
            unat (terminal_column s + 1) = Suc (unat (terminal_column s))"
    by (simp add: unat_add_small VGA_WIDTH_def)
  have r1: "Suc (unat (terminal_row s)) < VGA_HEIGHT \<Longrightarrow>
            unat (terminal_row s + 1) = Suc (unat (terminal_row s))"
    by (simp add: unat_add_small VGA_HEIGHT_def)
  show ?thesis
    using assms False c1 r1 terminal_inv_scroll [OF inv2]
    by (auto simp: terminal_putchar_char Let_def terminal_inv_def VGA_WIDTH_def)
qed
text \<open>
  C4. An ordinary character (not a newline) is written, in the current
  attribute, into the cell under the cursor, and the cursor moves one column
  right, or to the start of the next row when it was in the last column; when
  that does not move it below the last row, no other cell changes.
\<close>

theorem terminal_putchar_writes_cell:
  assumes "terminal_inv s" "c \<noteq> 10"
    and "\<not> (Suc (unat (terminal_column s)) = VGA_WIDTH \<and> Suc (unat (terminal_row s)) = VGA_HEIGHT)"
  shows "\<exists>s'. terminal_putchar c s = Some s' \<and>
    vga_text s' = (vga_text s)[unat (terminal_row s) * VGA_WIDTH + unat (terminal_column s)
                    := vga_entry c (terminal_color s)] \<and>
    terminal_color s' = terminal_color s \<and>
    (if Suc (unat (terminal_column s)) < VGA_WIDTH
     then terminal_row s' = terminal_row s \<and> unat (terminal_column s') = Suc (unat (terminal_column s))
     else unat (terminal_row s') = Suc (unat (terminal_row s)) \<and> terminal_column s' = 0)"
proof -
  have r: "unat (terminal_row s) < VGA_HEIGHT" and k: "unat (terminal_column s) < VGA_WIDTH"
    using assms(1) by (simp_all add: terminal_inv_def)
  have c1: "Suc (unat (terminal_column s)) < VGA_WIDTH \<Longrightarrow>
            unat (terminal_column s + 1) = Suc (unat (terminal_column s))"
    by (simp add: unat_add_small VGA_WIDTH_def)
  have r1: "Suc (unat (terminal_row s)) < VGA_HEIGHT \<Longrightarrow>
            unat (terminal_row s + 1) = Suc (unat (terminal_row s))"
    by (simp add: unat_add_small VGA_HEIGHT_def)
  show ?thesis
    using assms r k c1 r1 by (auto simp: terminal_putchar_char Let_def)
qed

theorem terminal_putchar_writes_cell_witness:
  "\<exists>s'. terminal_putchar 72
     \<lparr>terminal_row = 0, terminal_column = 0, terminal_color = 2,
          terminal_buffer = VGA_BASE, vga_text = replicate 2000 0x0220\<rparr> = Some s' \<and>
     vga_text s' = (replicate 2000 0x0220)[0 := vga_entry 72 2] \<and> terminal_color s' = 2 \<and>
     terminal_row s' = 0 \<and> unat (terminal_column s') = 1"
  using terminal_putchar_writes_cell [of "\<lparr>terminal_row = 0, terminal_column = 0, terminal_color = 2,
          terminal_buffer = VGA_BASE, vga_text = replicate 2000 0x0220\<rparr>" 72]
  by (simp add: terminal_inv_def vga_grid_size VGA_HEIGHT_def VGA_WIDTH_def)

text \<open>
  C5. A newline writes no cell and puts the cursor at column 0 of the next row;
  on the last row it scrolls the screen instead and the cursor stays on the last
  row.
\<close>

theorem terminal_putchar_newline_moves:
  assumes "terminal_inv s"
  shows "\<exists>s'. terminal_putchar 10 s = Some s' \<and> terminal_column s' = 0 \<and>
    terminal_color s' = terminal_color s \<and>
    (if Suc (unat (terminal_row s)) < VGA_HEIGHT
     then unat (terminal_row s') = Suc (unat (terminal_row s)) \<and> vga_text s' = vga_text s
     else terminal_row s' = terminal_row s \<and>
          vga_text s' = drop VGA_WIDTH (vga_text s) @ drop (VGA_WIDTH * (VGA_HEIGHT - 1)) (vga_text s))"
proof -
  have r1: "Suc (unat (terminal_row s)) < VGA_HEIGHT \<Longrightarrow>
            unat (terminal_row s + 1) = Suc (unat (terminal_row s))"
    by (simp add: unat_add_small VGA_HEIGHT_def)
  show ?thesis
    using assms r1 by (simp add: terminal_putchar_newline terminal_scroll_newline_result)
qed

theorem terminal_putchar_newline_moves_witness:
  "\<exists>s'. terminal_putchar 10
     \<lparr>terminal_row = 0, terminal_column = 0, terminal_color = 2,
          terminal_buffer = VGA_BASE, vga_text = replicate 2000 0x0220\<rparr> = Some s' \<and> terminal_column s' = 0 \<and> terminal_color s' = 2 \<and>
     unat (terminal_row s') = 1 \<and> vga_text s' = replicate 2000 0x0220"
  using terminal_putchar_newline_moves [of "\<lparr>terminal_row = 0, terminal_column = 0, terminal_color = 2,
          terminal_buffer = VGA_BASE, vga_text = replicate 2000 0x0220\<rparr>"]
  by (simp add: terminal_inv_def vga_grid_size VGA_HEIGHT_def VGA_WIDTH_def)

subsection \<open>\<open>terminal_write\<close>, \<open>strlen\<close>, \<open>terminal_writestring\<close>\<close>

lemma putchars_append:
  "putchars (xs @ ys) s = (case putchars xs s of None \<Rightarrow> None | Some s' \<Rightarrow> putchars ys s')"
  by (induction xs arbitrary: s) (simp_all split: option.split)

lemma write_loop_putchars:
  assumes "unat i \<le> unat sz" "unat sz \<le> length data"
  shows "write_loop data sz i s = putchars (drop (unat i) (take (unat sz) data)) s"
  using assms
proof (induction data sz i s rule: write_loop.induct)
  case (1 data sz i s)
  show ?case
  proof (cases "i < sz")
    case True
    have il: "unat i < unat sz" using True by (simp add: word_less_nat_alt)
    have i1: "unat (i + 1) = Suc (unat i)" using True by (rule word_less_unat_Suc)
    have "unat i < length (take (unat sz) data)" using il "1.prems" by simp
    then have d: "drop (unat i) (take (unat sz) data) =
             data ! unat i # drop (Suc (unat i)) (take (unat sz) data)"
      using il Cons_nth_drop_Suc [of "unat i" "take (unat sz) data"] by simp
    show ?thesis
    proof (cases "terminal_putchar (data ! unat i) s")
      case None
      then show ?thesis
        using True il "1.prems" d by (simp add: write_loop.simps [of data sz i s])
    next
      case (Some s')
      have "write_loop data sz (i + 1) s' = putchars (drop (unat (i + 1)) (take (unat sz) data)) s'"
        using True il "1.prems" Some i1 by (intro "1.IH") simp_all
      then show ?thesis
        using True il "1.prems" d Some i1 by (simp add: write_loop.simps [of data sz i s])
    qed
  next
    case False
    have stop: "write_loop data sz i s = Some s"
      using False by (simp add: write_loop.simps [of data sz i s])
    have "unat i = unat sz" using False "1.prems" by (simp add: word_less_nat_alt)
    then show ?thesis using stop "1.prems" by simp
  qed
qed

text \<open>
  C11. \<open>terminal_write data size\<close>, when the \<open>size\<close> bytes are readable, is
  \<open>terminal_putchar\<close> applied to each of them in order.
\<close>

theorem terminal_write_is_putchars:
  assumes "unat sz \<le> length data"
  shows "terminal_write data sz s = putchars (take (unat sz) data) s"
  using write_loop_putchars [of 0 sz data s] assms by (simp add: terminal_write_def)

theorem terminal_write_is_putchars_witness:
  "terminal_write [72, 105, 33] 2 \<lparr>terminal_row = 0, terminal_column = 0, terminal_color = 2,
          terminal_buffer = VGA_BASE, vga_text = replicate 2000 0x0220\<rparr> =
   putchars [72, 105] \<lparr>terminal_row = 0, terminal_column = 0, terminal_color = 2,
          terminal_buffer = VGA_BASE, vga_text = replicate 2000 0x0220\<rparr>"
  using terminal_write_is_putchars [of 2 "[72, 105, 33]" "\<lparr>terminal_row = 0, terminal_column = 0, terminal_color = 2,
          terminal_buffer = VGA_BASE, vga_text = replicate 2000 0x0220\<rparr>"] by simp

lemma strlen_loop_found:
  assumes "unat len \<le> n" "n < length str" "str ! n = 0"
    and "\<forall>j. unat len \<le> j \<and> j < n \<longrightarrow> str ! j \<noteq> 0" and "n < 2 ^ 32"
  shows "strlen_loop str len = Some (word_of_nat n)"
  using assms
proof (induction "n - unat len" arbitrary: len)
  case 0
  then have eq: "unat len = n" by simp
  have "unat (word_of_nat n :: size_t) = n" using "0.prems" by (simp add: unat_of_nat_small)
  then have ln: "len = word_of_nat n" using eq by (simp add: word_unat_eq_iff)
  have "strlen_loop str len = Some len"
    using "0.prems" eq by (simp add: strlen_loop.simps [of str len])
  then show ?case using ln by simp
next
  case (Suc k)
  have lt: "unat len < n" using Suc.hyps by simp
  have nz: "str ! unat len \<noteq> 0" using Suc.prems lt by simp
  have l1: "unat (len + 1) = Suc (unat len)"
    using lt Suc.prems by (simp add: unat_add_small)
  have "strlen_loop str (len + 1) = Some (word_of_nat n)"
    using Suc.hyps Suc.prems l1 by (intro Suc.hyps(1)) auto
  then show ?case using lt Suc.prems nz by (simp add: strlen_loop.simps [of str len])
qed

lemma strlen_loop_unterminated:
  assumes "unat len \<le> length str" "\<forall>j. unat len \<le> j \<and> j < length str \<longrightarrow> str ! j \<noteq> 0"
    and "length str < 2 ^ 32"
  shows "strlen_loop str len = None"
  using assms
proof (induction "length str - unat len" arbitrary: len)
  case 0
  then show ?case by (simp add: strlen_loop.simps [of str len])
next
  case (Suc k)
  have lt: "unat len < length str" using Suc.hyps by simp
  have l1: "unat (len + 1) = Suc (unat len)"
    using lt Suc.prems by (simp add: unat_add_small)
  have "strlen_loop str (len + 1) = None"
    using Suc.hyps Suc.prems l1 by (intro Suc.hyps(1)) auto
  then show ?case using lt Suc.prems by (simp add: strlen_loop.simps [of str len])
qed

lemma strlen_takeWhile:
  assumes "0 \<in> set str" "length str < 2 ^ 32"
  shows "strlen str = Some (word_of_nat (length (takeWhile (\<lambda>b. b \<noteq> 0) str)))"
proof -
  let ?n = "length (takeWhile (\<lambda>b. b \<noteq> 0) str)"
  have n: "?n < length str" using assms(1) by (rule length_takeWhile_less_ex) simp
  have z: "str ! ?n = 0" using n nth_length_takeWhile [of "\<lambda>b. b \<noteq> 0" str] by simp
  have nz: "\<forall>j. 0 \<le> j \<and> j < ?n \<longrightarrow> str ! j \<noteq> 0"
    using takeWhile_nth_holds [of _ "\<lambda>b. b \<noteq> 0" str] by simp
  show ?thesis
    unfolding strlen_def using n z nz assms(2)
    by (intro strlen_loop_found) simp_all
qed
text \<open>
  C10. \<open>strlen\<close> terminates exactly on the byte sequences that contain a NUL,
  and then returns the index of the first NUL; on a sequence without one it
  reads past the end, which has no result.
\<close>

theorem strlen_spec:
  assumes "length str < 2 ^ 32"
  shows "(strlen str = None \<longleftrightarrow> 0 \<notin> set str) \<and>
         (\<forall>n. strlen str = Some n \<longrightarrow>
            unat n < length str \<and> str ! unat n = 0 \<and> (\<forall>j < unat n. str ! j \<noteq> 0))"
proof (cases "0 \<in> set str")
  case True
  let ?n = "length (takeWhile (\<lambda>b. b \<noteq> 0) str)"
  have eq: "strlen str = Some (word_of_nat ?n)" using True assms by (rule strlen_takeWhile)
  have n: "unat (word_of_nat ?n :: size_t) = ?n"
    using assms length_takeWhile_le [of "\<lambda>b. b \<noteq> 0" str] by (simp add: unat_of_nat_small)
  have lt: "?n < length str" using True by (rule length_takeWhile_less_ex) simp
  have "str ! ?n = 0" using lt nth_length_takeWhile [of "\<lambda>b. b \<noteq> 0" str] by simp
  moreover have "\<forall>j < ?n. str ! j \<noteq> 0"
    using takeWhile_nth_holds [of _ "\<lambda>b. b \<noteq> 0" str] by simp
  ultimately show ?thesis using True eq n lt by simp
next
  case False
  then have "strlen str = None"
    unfolding strlen_def using assms by (intro strlen_loop_unterminated) (auto simp: in_set_conv_nth)
  then show ?thesis using False by simp
qed

theorem strlen_spec_witness:
  "strlen (c_str ''Hi'') \<noteq> None \<and> strlen [72, 105] = None"
  using strlen_spec [of "c_str ''Hi''"] strlen_spec [of "[72, 105]"] by (simp add: c_str_def)

lemma terminal_writestring_putchars:
  assumes "0 \<in> set data" "length data < 2 ^ 32"
  shows "terminal_writestring data s = putchars (takeWhile (\<lambda>b. b \<noteq> 0) data) s"
proof -
  let ?n = "length (takeWhile (\<lambda>b. b \<noteq> 0) data)"
  have n: "unat (word_of_nat ?n :: size_t) = ?n"
    using assms(2) length_takeWhile_le [of "\<lambda>b. b \<noteq> 0" data] by (simp add: unat_of_nat_small)
  have "terminal_write data (word_of_nat ?n) s = putchars (take ?n data) s"
    unfolding terminal_write_def using n length_takeWhile_le [of "\<lambda>b. b \<noteq> 0" data]
    by (subst write_loop_putchars) simp_all
  then show ?thesis
    using assms by (simp add: terminal_writestring_def strlen_takeWhile takeWhile_eq_take [symmetric])
qed

text \<open>
  C12. \<open>terminal_writestring\<close> on a NUL-terminated byte sequence writes
  exactly the bytes before the first NUL, one \<open>terminal_putchar\<close> each.
\<close>

theorem terminal_writestring_is_putchars:
  assumes "0 \<in> set data" "length data < 2 ^ 32"
  shows "terminal_writestring data s = putchars (takeWhile (\<lambda>b. b \<noteq> 0) data) s"
  using assms by (rule terminal_writestring_putchars)

theorem terminal_writestring_is_putchars_witness:
  "terminal_writestring (c_str ''Hi'') \<lparr>terminal_row = 0, terminal_column = 0, terminal_color = 2,
          terminal_buffer = VGA_BASE, vga_text = replicate 2000 0x0220\<rparr> =
   putchars [72, 105] \<lparr>terminal_row = 0, terminal_column = 0, terminal_color = 2,
          terminal_buffer = VGA_BASE, vga_text = replicate 2000 0x0220\<rparr>"
  using terminal_writestring_is_putchars [of "c_str ''Hi''" "\<lparr>terminal_row = 0, terminal_column = 0, terminal_color = 2,
          terminal_buffer = VGA_BASE, vga_text = replicate 2000 0x0220\<rparr>"]
  by (simp add: c_str_def)

end
