(* ===== verification/VGA_Runs.thy ===== *)
theory VGA_Runs
  imports VGA_Writer
begin

text \<open>
  Runs of output: \<open>putchars\<close> over a sequence of ordinary characters that
  stays inside one row, one that fills the row to its end, and a sequence of
  newlines.  These compose the per-character lemmas of \<open>VGA_Writer\<close> into the
  statements of the spec's section 8.
\<close>

definition run_cells :: "nat \<Rightarrow> uint8 list \<Rightarrow> uint8 \<Rightarrow> vga_mem \<Rightarrow> vga_mem" where
  "run_cells p cs a m = take p m @ map (\<lambda>c. vga_entry c a) cs @ drop (p + length cs) m"

lemma run_cells_Cons:
  assumes "p + length (c # cs) \<le> length m"
  shows "run_cells (Suc p) cs a (m[p := vga_entry c a]) = run_cells p (c # cs) a m"
  using assms by (simp add: run_cells_def take_Suc_update)

lemma length_run_cells [simp]:
  "p + length cs \<le> length m \<Longrightarrow> length (run_cells p cs a m) = length m"
  by (simp add: run_cells_def)

lemma putchars_run:
  assumes "terminal_inv s" "10 \<notin> set cs" "unat (terminal_column s) + length cs < VGA_WIDTH"
  shows "putchars cs s =
    Some (s\<lparr>vga_text := run_cells (unat (terminal_row s) * VGA_WIDTH + unat (terminal_column s))
                          cs (terminal_color s) (vga_text s),
           terminal_column := terminal_column s + word_of_nat (length cs)\<rparr>)"
  using assms
proof (induction cs arbitrary: s)
  case Nil
  then show ?case by (simp add: run_cells_def)
next
  case (Cons c cs)
  let ?p = "unat (terminal_row s) * VGA_WIDTH + unat (terminal_column s)"
  let ?s1 = "s\<lparr>vga_text := (vga_text s)[?p := vga_entry c (terminal_color s)],
                terminal_column := terminal_column s + 1\<rparr>"
  have r: "unat (terminal_row s) < VGA_HEIGHT" and len: "length (vga_text s) = VGA_WIDTH * VGA_HEIGHT"
    using Cons.prems(1) by (simp_all add: terminal_inv_def)
  have step: "terminal_putchar c s = Some ?s1"
    using Cons.prems by (simp add: terminal_putchar_char Let_def)
  have c1: "unat (terminal_column s + 1) = Suc (unat (terminal_column s))"
    using Cons.prems(3) by (simp add: unat_add_small VGA_WIDTH_def)
  have inv1: "terminal_inv ?s1"
    using Cons.prems(1,3) c1 by (simp add: terminal_inv_def)
  have ih: "putchars cs ?s1 =
    Some (?s1\<lparr>vga_text := run_cells (Suc ?p) cs (terminal_color s) (vga_text ?s1),
           terminal_column := terminal_column ?s1 + word_of_nat (length cs)\<rparr>)"
    using Cons.IH [OF inv1] Cons.prems c1 by simp
  have bound: "?p + length (c # cs) \<le> length (vga_text s)"
  proof -
    have "unat (terminal_row s) * VGA_WIDTH + VGA_WIDTH \<le> VGA_WIDTH * VGA_HEIGHT"
      using r by (simp add: VGA_WIDTH_def VGA_HEIGHT_def)
    then show ?thesis using Cons.prems(3) len by simp
  qed
  have "run_cells (Suc ?p) cs (terminal_color s) (vga_text ?s1) =
        run_cells ?p (c # cs) (terminal_color s) (vga_text s)"
    using bound by (simp add: run_cells_Cons)
  then show ?case using step ih by (simp add: algebra_simps)
qed

lemma run_cells_snoc:
  assumes "p + length xs < length m"
  shows "(run_cells p xs a m)[p + length xs := vga_entry x a] = run_cells p (xs @ [x]) a m"
proof -
  have "p + length (map (\<lambda>c. vga_entry c a) xs) < length m" using assms by simp
  then show ?thesis
    unfolding run_cells_def using splice_update_next [of p "map (\<lambda>c. vga_entry c a) xs" m] by simp
qed

lemma putchars_fill_row:
  assumes inv: "terminal_inv s" and nl: "10 \<notin> set cs" and ne: "cs \<noteq> []"
    and full: "unat (terminal_column s) + length cs = VGA_WIDTH"
  shows "putchars cs s =
    (let s' = s\<lparr>vga_text := run_cells (unat (terminal_row s) * VGA_WIDTH + unat (terminal_column s))
                             cs (terminal_color s) (vga_text s),
                terminal_column := 0\<rparr>
     in if Suc (unat (terminal_row s)) < VGA_HEIGHT then Some (s'\<lparr>terminal_row := terminal_row s + 1\<rparr>)
        else terminal_scroll_newline s')"
proof -
  let ?p = "unat (terminal_row s) * VGA_WIDTH + unat (terminal_column s)"
  let ?xs = "butlast cs" and ?x = "last cs"
  have cs: "cs = ?xs @ [?x]" using ne by simp
  have nl': "10 \<notin> set ?xs" and x: "?x \<noteq> 10"
    using nl ne by (auto dest: in_set_butlastD) (metis last_in_set)
  have lxs: "unat (terminal_column s) + length ?xs < VGA_WIDTH" using full ne by (cases cs) simp_all
  let ?sb = "s\<lparr>vga_text := run_cells ?p ?xs (terminal_color s) (vga_text s),
               terminal_column := terminal_column s + word_of_nat (length ?xs)\<rparr>"
  have run: "putchars ?xs s = Some ?sb" using putchars_run [OF inv nl' lxs] by simp
  have r: "unat (terminal_row s) < VGA_HEIGHT" and len: "length (vga_text s) = VGA_WIDTH * VGA_HEIGHT"
    using inv by (simp_all add: terminal_inv_def)
  have cb: "unat (terminal_column s + word_of_nat (length ?xs)) = unat (terminal_column s) + length ?xs"
    using lxs by (simp add: unat_add_small unat_of_nat_small VGA_WIDTH_def)
  have bound: "?p + length ?xs < length (vga_text s)"
  proof -
    have "unat (terminal_row s) * VGA_WIDTH + VGA_WIDTH \<le> VGA_WIDTH * VGA_HEIGHT"
      using r by (simp add: VGA_WIDTH_def VGA_HEIGHT_def)
    then show ?thesis using lxs len by simp
  qed
  have invb: "terminal_inv ?sb" using inv lxs cb bound by (simp add: terminal_inv_def)
  have last_col: "\<not> Suc (unat (terminal_column s) + length ?xs) < VGA_WIDTH" using full ne by simp
  have upd: "(run_cells ?p ?xs (terminal_color s) (vga_text s))[?p + length ?xs := vga_entry ?x (terminal_color s)]
             = run_cells ?p cs (terminal_color s) (vga_text s)"
    using run_cells_snoc [OF bound] cs by metis
  have "terminal_putchar ?x ?sb =
    (let s' = s\<lparr>vga_text := run_cells ?p cs (terminal_color s) (vga_text s), terminal_column := 0\<rparr>
     in if Suc (unat (terminal_row s)) < VGA_HEIGHT then Some (s'\<lparr>terminal_row := terminal_row s + 1\<rparr>)
        else terminal_scroll_newline s')"
    using terminal_putchar_char [OF invb x] cb last_col upd by (simp add: Let_def add.assoc)
  then show ?thesis using run cs putchars_append [of ?xs "[?x]" s] by (simp split: option.split)
qed

lemma putchars_newlines:
  assumes "terminal_inv s" "unat (terminal_row s) + Suc k < VGA_HEIGHT"
  shows "putchars (replicate (Suc k) 10) s =
         Some (s\<lparr>terminal_row := terminal_row s + word_of_nat (Suc k), terminal_column := 0\<rparr>)"
  using assms
proof (induction k arbitrary: s)
  case 0
  then show ?case by (simp add: terminal_putchar_newline)
next
  case (Suc k)
  let ?s1 = "s\<lparr>terminal_row := terminal_row s + 1, terminal_column := 0\<rparr>"
  have r1: "unat (terminal_row s + 1) = Suc (unat (terminal_row s))"
    using Suc.prems(2) by (simp add: unat_add_small VGA_HEIGHT_def)
  have inv1: "terminal_inv ?s1" using Suc.prems r1 by (simp add: terminal_inv_def VGA_WIDTH_def)
  have "putchars (replicate (Suc k) 10) ?s1 =
        Some (?s1\<lparr>terminal_row := terminal_row ?s1 + word_of_nat (Suc k), terminal_column := 0\<rparr>)"
    using Suc.IH [OF inv1] Suc.prems r1 by simp
  then show ?case
    using Suc.prems by (simp add: terminal_putchar_newline algebra_simps)
qed

lemma nth_run_cells:
  assumes "p + length cs \<le> length m" "j < length m"
  shows "run_cells p cs a m ! j =
         (if p \<le> j \<and> j < p + length cs then vga_entry (cs ! (j - p)) a else m ! j)"
  using assms by (auto simp: run_cells_def nth_append min_def)

lemma write_word_length:
  "length cs \<le> VGA_WIDTH \<Longrightarrow> unat (word_of_nat (length cs) :: size_t) = length cs"
  by (simp add: unat_of_nat_small VGA_WIDTH_def)

text \<open>
  C6. Writing \<open>k\<close> ordinary characters with \<open>terminal_write\<close> where they fit
  in the rest of the cursor's row leaves the cursor \<open>k\<close> columns further on
  the same row, puts the encoding of the \<open>i\<close>-th character (in the current
  attribute) into the \<open>i\<close>-th cell from the cursor, and changes no other cell.
\<close>

theorem terminal_write_row_run:
  assumes inv: "terminal_inv s" and nl: "10 \<notin> set cs"
    and fit: "unat (terminal_column s) + length cs < VGA_WIDTH"
  shows "\<exists>s'. terminal_write cs (word_of_nat (length cs)) s = Some s' \<and>
    terminal_row s' = terminal_row s \<and>
    unat (terminal_column s') = unat (terminal_column s) + length cs \<and>
    (\<forall>i < length cs. cell_at s' (unat (terminal_column s) + i) (unat (terminal_row s)) =
                     vga_entry (cs ! i) (terminal_color s)) \<and>
    (\<forall>j < length (vga_text s).
       j < unat (terminal_row s) * VGA_WIDTH + unat (terminal_column s) \<or>
       unat (terminal_row s) * VGA_WIDTH + unat (terminal_column s) + length cs \<le> j \<longrightarrow>
       vga_text s' ! j = vga_text s ! j)"
proof -
  let ?p = "unat (terminal_row s) * VGA_WIDTH + unat (terminal_column s)"
  have r: "unat (terminal_row s) < VGA_HEIGHT" and len: "length (vga_text s) = VGA_WIDTH * VGA_HEIGHT"
    using inv by (simp_all add: terminal_inv_def)
  have lw: "unat (word_of_nat (length cs) :: size_t) = length cs" using fit by (simp add: write_word_length)
  have wr: "terminal_write cs (word_of_nat (length cs)) s = putchars cs s"
    using write_loop_putchars [of 0 "word_of_nat (length cs)" cs s] lw by (simp add: terminal_write_def)
  have bound: "?p + length cs \<le> length (vga_text s)"
  proof -
    have "unat (terminal_row s) * VGA_WIDTH + VGA_WIDTH \<le> VGA_WIDTH * VGA_HEIGHT"
      using r by (simp add: VGA_WIDTH_def VGA_HEIGHT_def)
    then show ?thesis using fit len by simp
  qed
  have col: "unat (terminal_column s + word_of_nat (length cs)) = unat (terminal_column s) + length cs"
    using fit lw by (simp add: unat_add_small VGA_WIDTH_def)
  show ?thesis
    using putchars_run [OF inv nl fit] wr col bound
    by (auto simp: cell_at_def nth_run_cells algebra_simps)
qed

theorem terminal_write_row_run_witness:
  "\<exists>s'. terminal_write [72, 105] (word_of_nat (length [72, 105 :: uint8]))
     \<lparr>terminal_row = 0, terminal_column = 0, terminal_color = 2,
          terminal_buffer = VGA_BASE, vga_text = replicate 2000 0x0220\<rparr> = Some s' \<and>
     terminal_row s' = 0 \<and> unat (terminal_column s') = length [72, 105 :: uint8] \<and>
     (\<forall>i < length [72, 105 :: uint8]. cell_at s' i 0 = vga_entry ([72, 105] ! i) 2)"
proof -
  have inv: "terminal_inv \<lparr>terminal_row = 0, terminal_column = 0, terminal_color = 2,
          terminal_buffer = VGA_BASE, vga_text = replicate 2000 0x0220\<rparr>"
    by (simp add: terminal_inv_def vga_grid_size VGA_HEIGHT_def VGA_WIDTH_def)
  have nl: "(10 :: uint8) \<notin> set [72, 105]" by simp
  have fit: "unat (terminal_column \<lparr>terminal_row = 0, terminal_column = 0, terminal_color = 2,
          terminal_buffer = VGA_BASE, vga_text = replicate 2000 0x0220\<rparr>) + length [72, 105 :: uint8] < VGA_WIDTH"
    by (simp add: VGA_WIDTH_def)
  show ?thesis using terminal_write_row_run [OF inv nl fit] by auto
qed

text \<open>
  C7. Writing exactly one row's width of ordinary characters from column 0 fills
  the cursor's row with their encodings and leaves the cursor at column 0 of the
  next row; on the last row it scrolls instead, the written row then being the
  second-to-last one and the cursor staying on the last row.
\<close>

theorem terminal_write_full_row:
  assumes inv: "terminal_inv s" and c0: "terminal_column s = 0" and nl: "10 \<notin> set cs"
    and w: "length cs = VGA_WIDTH"
  shows "\<exists>s'. terminal_write cs (word_of_nat VGA_WIDTH) s = Some s' \<and> terminal_column s' = 0 \<and>
    (if Suc (unat (terminal_row s)) < VGA_HEIGHT
     then unat (terminal_row s') = Suc (unat (terminal_row s)) \<and>
          (\<forall>x < VGA_WIDTH. cell_at s' x (unat (terminal_row s)) = vga_entry (cs ! x) (terminal_color s))
     else terminal_row s' = terminal_row s \<and>
          (\<forall>x < VGA_WIDTH. cell_at s' x (VGA_HEIGHT - 2) = vga_entry (cs ! x) (terminal_color s)))"
proof -
  let ?p = "unat (terminal_row s) * VGA_WIDTH"
  have r: "unat (terminal_row s) < VGA_HEIGHT" and len: "length (vga_text s) = VGA_WIDTH * VGA_HEIGHT"
    and buf: "terminal_buffer s = VGA_BASE"
    using inv by (simp_all add: terminal_inv_def)
  have ne: "cs \<noteq> []" using w by (auto simp: VGA_WIDTH_def)
  have wr: "terminal_write cs (word_of_nat VGA_WIDTH) s = putchars cs s"
    using write_loop_putchars [of 0 "word_of_nat VGA_WIDTH" cs s] w
    by (simp add: terminal_write_def vga_simps VGA_WIDTH_def)
  have bound: "?p + length cs \<le> length (vga_text s)"
  proof -
    have "unat (terminal_row s) * VGA_WIDTH + VGA_WIDTH \<le> VGA_WIDTH * VGA_HEIGHT"
      using r by (simp add: VGA_WIDTH_def VGA_HEIGHT_def)
    then show ?thesis using w len by simp
  qed
  let ?m = "run_cells ?p cs (terminal_color s) (vga_text s)"
  have cells: "\<forall>x < VGA_WIDTH. ?m ! (unat (terminal_row s) * VGA_WIDTH + x) = vga_entry (cs ! x) (terminal_color s)"
  proof (intro allI impI)
    fix x assume "x < VGA_WIDTH"
    then have "?p + x < length (vga_text s)" using bound w by simp
    then show "?m ! (?p + x) = vga_entry (cs ! x) (terminal_color s)"
      using bound w \<open>x < VGA_WIDTH\<close> by (simp add: nth_run_cells)
  qed
  have fill: "putchars cs s =
    (let s' = s\<lparr>vga_text := ?m, terminal_column := 0\<rparr>
     in if Suc (unat (terminal_row s)) < VGA_HEIGHT then Some (s'\<lparr>terminal_row := terminal_row s + 1\<rparr>)
        else terminal_scroll_newline s')"
    using putchars_fill_row [OF inv nl ne] c0 w by simp
  show ?thesis
  proof (cases "Suc (unat (terminal_row s)) < VGA_HEIGHT")
    case True
    have "unat (terminal_row s + 1) = Suc (unat (terminal_row s))"
      using True by (simp add: unat_add_small VGA_HEIGHT_def)
    then show ?thesis using True fill wr cells by (simp add: cell_at_def)
  next
    case False
    then have last: "unat (terminal_row s) = VGA_HEIGHT - 1" using r by simp
    have inv': "terminal_inv (s\<lparr>vga_text := ?m, terminal_column := 0\<rparr>)"
      using inv bound by (simp add: terminal_inv_def VGA_WIDTH_def)
    have lm: "length ?m = VGA_WIDTH * VGA_HEIGHT" using bound len by simp
    have up: "\<forall>x < VGA_WIDTH. (drop VGA_WIDTH ?m @ drop (VGA_WIDTH * (VGA_HEIGHT - 1)) ?m) !
                 ((VGA_HEIGHT - 2) * VGA_WIDTH + x) = ?m ! ((VGA_HEIGHT - 1) * VGA_WIDTH + x)"
      using lm by (simp add: nth_append VGA_WIDTH_def VGA_HEIGHT_def)
    show ?thesis
      using False fill wr inv' cells last up
      by (simp add: terminal_scroll_newline_result cell_at_def)
  qed
qed

theorem terminal_write_full_row_witness:
  "\<exists>s'. terminal_write (replicate 80 72) (word_of_nat VGA_WIDTH)
     \<lparr>terminal_row = 0, terminal_column = 0, terminal_color = 2,
          terminal_buffer = VGA_BASE, vga_text = replicate 2000 0x0220\<rparr> = Some s' \<and> terminal_column s' = 0 \<and>
     unat (terminal_row s') = 1 \<and> (\<forall>x < VGA_WIDTH. cell_at s' x 0 = vga_entry 72 2)"
proof -
  let ?s = "\<lparr>terminal_row = 0, terminal_column = 0, terminal_color = 2,
          terminal_buffer = VGA_BASE, vga_text = replicate 2000 0x0220\<rparr>"
  have inv: "terminal_inv ?s" by (simp add: terminal_inv_def vga_grid_size VGA_HEIGHT_def VGA_WIDTH_def)
  have c0: "terminal_column ?s = 0" by simp
  have nl: "(10 :: uint8) \<notin> set (replicate 80 72)" by simp
  have w: "length (replicate 80 (72 :: uint8)) = VGA_WIDTH" by (simp add: VGA_WIDTH_def)
  have lt: "Suc (unat (terminal_row ?s)) < VGA_HEIGHT" by (simp add: VGA_HEIGHT_def)
  obtain s' where s': "terminal_write (replicate 80 72) (word_of_nat VGA_WIDTH) ?s = Some s'"
    and col: "terminal_column s' = 0" and row: "unat (terminal_row s') = Suc (unat (terminal_row ?s))"
    and cells: "\<forall>x < VGA_WIDTH. cell_at s' x (unat (terminal_row ?s)) =
                  vga_entry (replicate 80 72 ! x) (terminal_color ?s)"
    using terminal_write_full_row [OF inv c0 nl w] lt by auto
  have "\<forall>x < VGA_WIDTH. cell_at s' x 0 = vga_entry 72 2"
    using cells by (simp add: VGA_WIDTH_def)
  then show ?thesis using s' col row by auto
qed

end
