(* ===== verification/VGA_Reach.thy ===== *)
theory VGA_Reach
  imports VGA_Runs
begin

text \<open>
  The terminal as a state machine.  The public operations of
  \<open>src/kernel.c\<close> that callers use (\<open>terminal_initialize\<close>,
  \<open>terminal_setcolor\<close>, \<open>terminal_putchar\<close>, \<open>terminal_write\<close>,
  \<open>terminal_writestring\<close>, \<open>terminal_blank\<close>) are the constructors of
  \<open>term_op\<close>; \<open>term_exec\<close> runs one, \<open>term_run\<close> a sequence.  The reachable
  states are those produced by \<open>terminal_initialize\<close> from a boot state
  followed by any operations.  By rule induction every reachable state satisfies
  \<open>terminal_inv\<close>, and from a reachable state every operation whose caller
  buffers are valid (\<open>op_valid\<close>) returns without undefined behaviour.  Before
  \<open>terminal_initialize\<close>, writing a character goes through the null pointer.
\<close>

datatype term_op =
    Initialize
  | SetColor uint8
  | PutChar uint8
  | Write "uint8 list" size_t
  | WriteString "uint8 list"
  | Blank

fun term_exec :: "term_op \<Rightarrow> kstate \<Rightarrow> kstate option" where
  "term_exec Initialize s = terminal_initialize s"
| "term_exec (SetColor a) s = Some (terminal_setcolor a s)"
| "term_exec (PutChar c) s = terminal_putchar c s"
| "term_exec (Write d n) s = terminal_write d n s"
| "term_exec (WriteString d) s = terminal_writestring d s"
| "term_exec Blank s = terminal_blank s"

fun term_run :: "term_op list \<Rightarrow> kstate \<Rightarrow> kstate option" where
  "term_run [] s = Some s"
| "term_run (op # ops) s = (case term_exec op s of None \<Rightarrow> None | Some s' \<Rightarrow> term_run ops s')"

text \<open>What the caller must guarantee: the bytes \<open>terminal_write\<close> reads exist, and
  the string \<open>terminal_writestring\<close> reads is NUL-terminated.\<close>

fun op_valid :: "term_op \<Rightarrow> bool" where
  "op_valid (Write d n) \<longleftrightarrow> unat n \<le> length d"
| "op_valid (WriteString d) \<longleftrightarrow> 0 \<in> set d \<and> length d < 2 ^ 32"
| "op_valid _ \<longleftrightarrow> True"

inductive reachable :: "kstate \<Rightarrow> bool" where
  boot: "length m = VGA_WIDTH * VGA_HEIGHT \<Longrightarrow> terminal_initialize (boot_state m) = Some s \<Longrightarrow>
         reachable s"
| step: "reachable s \<Longrightarrow> term_exec op s = Some s' \<Longrightarrow> reachable s'"

inductive_cases reachable_stepE: "reachable s'"

subsection \<open>The invariant is kept by every operation\<close>

lemma putchars_inv:
  "terminal_inv s \<Longrightarrow> putchars cs s = Some s' \<Longrightarrow> terminal_inv s'"
proof (induction cs arbitrary: s)
  case Nil
  then show ?case by simp
next
  case (Cons c cs)
  obtain s1 where s1: "terminal_putchar c s = Some s1" and inv1: "terminal_inv s1"
    using terminal_putchar_inv [OF Cons.prems(1)] by blast
  then show ?case using Cons by simp
qed

lemma putchars_total: "terminal_inv s \<Longrightarrow> \<exists>s'. putchars cs s = Some s'"
proof (induction cs arbitrary: s)
  case Nil
  then show ?case by simp
next
  case (Cons c cs)
  obtain s1 where "terminal_putchar c s = Some s1" and "terminal_inv s1"
    using terminal_putchar_inv [OF Cons.prems] by blast
  then show ?case using Cons.IH by simp
qed

lemma write_loop_inv:
  "terminal_inv s \<Longrightarrow> write_loop data sz i s = Some s' \<Longrightarrow> terminal_inv s'"
proof (induction data sz i s rule: write_loop.induct)
  case (1 data sz i s)
  show ?case
  proof (cases "i < sz \<and> unat i < length data")
    case True
    obtain s1 where s1: "terminal_putchar (data ! unat i) s = Some s1" and "terminal_inv s1"
      using terminal_putchar_inv [OF "1.prems"(1)] by blast
    then show ?thesis
      using True "1.prems"(2) by (intro "1.IH" [OF _ _ s1]) (simp_all add: write_loop.simps [of data sz i s])
  next
    case False
    then show ?thesis using "1.prems" by (auto simp: write_loop.simps [of data sz i s] split: if_splits)
  qed
qed

lemma term_exec_inv:
  assumes "terminal_inv s" "term_exec op s = Some s'"
  shows "terminal_inv s'"
proof (cases op)
  case Initialize
  then show ?thesis using assms
    by (auto simp: terminal_initialize_result terminal_inv_def VGA_WIDTH_def VGA_HEIGHT_def)
next
  case (SetColor a)
  then show ?thesis using assms by (auto simp: terminal_setcolor_def terminal_inv_def)
next
  case (PutChar c)
  then show ?thesis using assms terminal_putchar_inv [OF assms(1), of c] by auto
next
  case (Write d n)
  then show ?thesis using assms write_loop_inv [OF assms(1)] by (simp add: terminal_write_def)
next
  case (WriteString d)
  then show ?thesis using assms write_loop_inv [OF assms(1)]
    by (auto simp: terminal_writestring_def terminal_write_def split: option.splits)
next
  case Blank
  then show ?thesis using assms by (auto simp: terminal_blank_result terminal_inv_def)
qed

lemma reachable_terminal_inv: "reachable s \<Longrightarrow> terminal_inv s"
proof (induction rule: reachable.induct)
  case (boot m s)
  then show ?case by (auto simp: terminal_initialize_result boot_state_def terminal_inv_def
                                 VGA_WIDTH_def VGA_HEIGHT_def)
next
  case (step s op s')
  then show ?case by (intro term_exec_inv [OF step.IH step.hyps(2)])
qed

lemma term_exec_total:
  assumes inv: "terminal_inv s" and ok: "op_valid op"
  shows "\<exists>s'. term_exec op s = Some s'"
proof (cases op)
  case Initialize
  then show ?thesis using inv by (simp add: terminal_initialize_result terminal_inv_def)
next
  case (SetColor a)
  then show ?thesis by simp
next
  case (PutChar c)
  then show ?thesis using terminal_putchar_inv [OF inv, of c] by auto
next
  case (Write d n)
  then have "terminal_write d n s = putchars (take (unat n) d) s"
    using ok write_loop_putchars [of 0 n d s] by (simp add: terminal_write_def)
  then show ?thesis using Write putchars_total [OF inv] by simp
next
  case (WriteString d)
  then have "terminal_writestring d s = putchars (takeWhile (\<lambda>b. b \<noteq> 0) d) s"
    using ok by (simp add: terminal_writestring_putchars)
  then show ?thesis using WriteString putchars_total [OF inv] by simp
next
  case Blank
  then show ?thesis using inv by (simp add: terminal_blank_result)
qed

lemma term_run_total:
  "reachable s \<Longrightarrow> list_all op_valid ops \<Longrightarrow> \<exists>s'. term_run ops s = Some s' \<and> reachable s'"
proof (induction ops arbitrary: s)
  case Nil
  then show ?case by simp
next
  case (Cons op ops)
  obtain s1 where s1: "term_exec op s = Some s1"
    using term_exec_total [OF reachable_terminal_inv [OF Cons.prems(1)]] Cons.prems(2) by auto
  then have "reachable s1" using Cons.prems(1) by (rule reachable.step [rotated])
  then show ?case using Cons.IH Cons.prems(2) s1 by simp
qed

lemma reachable_initial_screen:
  "reachable \<lparr>terminal_row = 0, terminal_column = 0, terminal_color = 2,
       terminal_buffer = VGA_BASE, vga_text = replicate 2000 (vga_entry 32 2)\<rparr>"
proof -
  have "terminal_initialize (boot_state (replicate 2000 0)) = Some \<lparr>terminal_row = 0, terminal_column = 0, terminal_color = 2,
       terminal_buffer = VGA_BASE, vga_text = replicate 2000 (vga_entry 32 2)\<rparr>"
    by (simp add: terminal_initialize_result boot_state_def default_color vga_grid_size)
  then show ?thesis by (rule reachable.boot [rotated]) (simp add: vga_grid_size)
qed

subsection \<open>Properties of the state machine\<close>

text \<open>
  C3. From any reachable state, every public operation whose caller-supplied
  buffer is valid returns without undefined behaviour, and the state it returns is
  again reachable.
\<close>

theorem reachable_op_safe:
  assumes "reachable s" "op_valid op"
  shows "\<exists>s'. term_exec op s = Some s' \<and> reachable s'"
proof -
  obtain s' where "term_exec op s = Some s'"
    using term_exec_total [OF reachable_terminal_inv [OF assms(1)] assms(2)] by blast
  moreover from assms(1) this have "reachable s'" by (rule reachable.step)
  ultimately show ?thesis by blast
qed

theorem reachable_op_safe_witness:
  "\<exists>s'. term_exec (WriteString (c_str ''Hi'')) \<lparr>terminal_row = 0, terminal_column = 0, terminal_color = 2,
       terminal_buffer = VGA_BASE, vga_text = replicate 2000 (vga_entry 32 2)\<rparr> = Some s' \<and> reachable s'"
  using reachable_op_safe [OF reachable_initial_screen, of "WriteString (c_str ''Hi'')"]
  by (simp add: c_str_def)

text \<open>
  C15. In every reachable state the cursor is on the screen
  (\<open>0 \<le> column < VGA_WIDTH\<close>, \<open>0 \<le> row < VGA_HEIGHT\<close>), the buffer pointer is
  the grid's fixed base address and the grid keeps its size.
\<close>

theorem reachable_cursor_in_range:
  assumes "reachable s"
  shows "unat (terminal_row s) < VGA_HEIGHT \<and> unat (terminal_column s) < VGA_WIDTH \<and>
         terminal_buffer s = VGA_BASE \<and> length (vga_text s) = VGA_WIDTH * VGA_HEIGHT"
  using reachable_terminal_inv [OF assms] by (simp add: terminal_inv_def)

theorem reachable_cursor_in_range_witness:
  "unat (terminal_row \<lparr>terminal_row = 0, terminal_column = 0, terminal_color = 2,
       terminal_buffer = VGA_BASE, vga_text = replicate 2000 (vga_entry 32 2)\<rparr>) < VGA_HEIGHT"
  using reachable_cursor_in_range [OF reachable_initial_screen] by simp

text \<open>
  C16. Writing an ordinary character before \<open>terminal_initialize\<close> stores through
  the null \<open>terminal_buffer\<close>: undefined behaviour, whatever the screen holds.
\<close>

theorem putchar_before_initialize:
  assumes "c \<noteq> 10"
  shows "terminal_putchar c (boot_state m) = None"
proof -
  have "terminal_putentryat c 0 0 0 (boot_state m) = None"
    using vga_store_null [of "0 * word_of_nat VGA_WIDTH + 0"]
    by (simp add: terminal_putentryat_def boot_state_def)
  then show ?thesis using assms by (simp add: terminal_putchar_def boot_state_def)
qed

theorem putchar_before_initialize_witness:
  "terminal_putchar 72 (boot_state (replicate 2000 0)) = None"
  using putchar_before_initialize [of 72 "replicate 2000 0"] by simp

end
