(* ===== verification/VGA_Kernel.thy ===== *)
theory VGA_Kernel
  imports VGA_Reach
begin

text \<open>
  The caller of the terminal: \<open>time_delay\<close> and \<open>kernel_main\<close> (source lines
  156--177).  \<open>time_delay\<close> has no effect on memory; what it does is spin, so
  it is modelled by the number of iterations its loop runs.
\<close>

text \<open>\<open>for (unsigned long i = 0; i < s * 100000; i++) ;\<close>: on i386 \<open>unsigned long\<close>
  and \<open>size_t\<close> are 32 bits, so the bound \<open>s * 100000\<close> is computed modulo \<open>2^32\<close>.
  The loop returns the number of iterations it ran.\<close>

function delay_loop :: "size_t \<Rightarrow> size_t \<Rightarrow> nat" where
  "delay_loop bound i = (if i < bound then Suc (delay_loop bound (i + 1)) else 0)"
  by pat_completeness auto
termination
  by (relation "measure (\<lambda>(bound, i). unat bound - unat i)")
     (auto intro: word_less_measure_decreases)

declare delay_loop.simps [simp del]

definition time_delay :: "size_t \<Rightarrow> nat" where
  "time_delay s = delay_loop (s * 100000) 0"

text \<open>The two messages \<open>kernel_main\<close> prints, as the NUL-terminated byte arrays
  of their C string literals (\<open>CHR 0x0A\<close> is \<open>'\\n'\<close>).\<close>

definition banner :: "uint8 list" where
  "banner = c_str (''MYOS KERNEL VER 0.0'' @ [CHR 0x0A] @ ''BUILD DATE 0416221428'' @
                   [CHR 0x0A, CHR 0x0A] @ ''Hello from kernel world!'' @ [CHR 0x0A])"

definition wrap_message :: "uint8 list" where
  "wrap_message = c_str (''Wrapping the screen'' @ [CHR 0x0A])"

text \<open>\<open>for (int i = 0; i < n; i++) { terminal_writestring(msg); time_delay(1000); }\<close>.
  The loop counter stays below 25 and is a \<open>nat\<close>; \<open>t\<close> accumulates the iterations
  spent in \<open>time_delay\<close>, the only thing the delay does.\<close>

function main_loop :: "uint8 list \<Rightarrow> nat \<Rightarrow> nat \<Rightarrow> kstate \<Rightarrow> nat \<Rightarrow> (kstate \<times> nat) option" where
  "main_loop msg n i s t =
     (if i < n then
        (case terminal_writestring msg s of
           None \<Rightarrow> None
         | Some s' \<Rightarrow> main_loop msg n (Suc i) s' (t + time_delay 1000))
      else Some (s, t))"
  by pat_completeness auto
termination
  by (relation "measure (\<lambda>(msg, n, i, s, t). n - i)") auto

declare main_loop.simps [simp del]

definition kernel_main :: "kstate \<Rightarrow> (kstate \<times> nat) option" where
  "kernel_main s =
     (case terminal_initialize s of
        None \<Rightarrow> None
      | Some s1 \<Rightarrow>
          (case main_loop banner VGA_HEIGHT 0 s1 0 of
             None \<Rightarrow> None
           | Some (s2, t) \<Rightarrow> main_loop wrap_message (VGA_HEIGHT div 2) 0 s2 t))"

text \<open>Text made of lines, each followed by a newline.\<close>

definition lines_text :: "uint8 list list \<Rightarrow> uint8 list" where
  "lines_text ls = concat (map (\<lambda>l. l @ [10]) ls)"

definition short_line :: "uint8 list \<Rightarrow> bool" where
  "short_line l \<longleftrightarrow> 10 \<notin> set l \<and> 0 \<notin> set l \<and> length l < VGA_WIDTH"

lemma delay_loop_count: "delay_loop bound i = unat bound - unat i"
proof (induction bound i rule: delay_loop.induct)
  case (1 bound i)
  show ?case
  proof (cases "i < bound")
    case True
    then have "unat i < unat bound" by (simp add: word_less_nat_alt)
    then show ?thesis
      using True "1.IH" word_less_unat_Suc [OF True] by (simp add: delay_loop.simps [of bound i])
  next
    case False
    then show ?thesis by (simp add: delay_loop.simps [of bound i] word_less_nat_alt)
  qed
qed

lemma time_delay_count: "time_delay s = unat s * 100000 mod 2 ^ 32"
  by (simp add: time_delay_def delay_loop_count unat_mult_lem unat_word_ariths)

lemma time_delay_1000: "time_delay 1000 = 100000000"
  by (simp add: time_delay_count)


lemma putchars_line:
  assumes inv: "terminal_inv s" and c0: "terminal_column s = 0" and l: "short_line cs"
  shows "\<exists>s'. putchars (cs @ [10]) s = Some s' \<and> terminal_inv s' \<and> terminal_column s' = 0 \<and>
           unat (terminal_row s') = min (Suc (unat (terminal_row s))) (VGA_HEIGHT - 1)"
proof -
  have nl: "10 \<notin> set cs" and fit: "unat (terminal_column s) + length cs < VGA_WIDTH"
    using l c0 by (simp_all add: short_line_def)
  obtain s1 where s1: "putchars cs s = Some s1" and r1: "terminal_row s1 = terminal_row s"
    using putchars_run [OF inv nl fit] by simp
  have inv1: "terminal_inv s1" using putchars_inv [OF inv s1] .
  have r: "unat (terminal_row s) < VGA_HEIGHT" using inv by (simp add: terminal_inv_def)
  show ?thesis
  proof (cases "Suc (unat (terminal_row s)) < VGA_HEIGHT")
    case True
    have "terminal_row s < word_of_nat VGA_HEIGHT - 1"
      using True by (simp add: word_less_nat_alt VGA_HEIGHT_def)
    then have "unat (terminal_row s + 1) = Suc (unat (terminal_row s))"
      by (rule word_less_unat_Suc)
    then show ?thesis
      using True s1 r1 inv1 terminal_putchar_newline [OF inv1]
      by (simp add: putchars_append terminal_inv_def)
  next
    case False
    obtain s2 where "terminal_scroll_newline s1 = Some s2" "terminal_inv s2"
      "terminal_row s2 = terminal_row s1"
      using terminal_inv_scroll [OF inv1] by blast
    then show ?thesis
      using False r s1 r1 terminal_putchar_newline [OF inv1]
      by (simp add: putchars_append terminal_inv_def)
  qed
qed

lemma putchars_lines:
  assumes "terminal_inv s" "terminal_column s = 0" "list_all short_line ls"
  shows "\<exists>s'. putchars (lines_text ls) s = Some s' \<and> terminal_inv s' \<and> terminal_column s' = 0 \<and>
           unat (terminal_row s') = min (unat (terminal_row s) + length ls) (VGA_HEIGHT - 1)"
  using assms
proof (induction ls arbitrary: s)
  case Nil
  then show ?case by (simp add: lines_text_def terminal_inv_def VGA_HEIGHT_def)
next
  case (Cons l ls)
  obtain s1 where s1: "putchars (l @ [10]) s = Some s1" and inv1: "terminal_inv s1"
    and c1: "terminal_column s1 = 0"
    and r1: "unat (terminal_row s1) = min (Suc (unat (terminal_row s))) (VGA_HEIGHT - 1)"
    using putchars_line [of s l] Cons.prems by auto
  obtain s2 where "putchars (lines_text ls) s1 = Some s2" "terminal_inv s2" "terminal_column s2 = 0"
    "unat (terminal_row s2) = min (unat (terminal_row s1) + length ls) (VGA_HEIGHT - 1)"
    using Cons.IH [OF inv1 c1] Cons.prems(3) by auto
  moreover have "lines_text (l # ls) = (l @ [10]) @ lines_text ls" by (simp add: lines_text_def)
  then have "putchars (lines_text (l # ls)) s = putchars (lines_text ls) s1"
    by (simp only: putchars_append [of "l @ [10]" "lines_text ls"] s1 option.case)
  moreover have "min (min (Suc (unat (terminal_row s))) (VGA_HEIGHT - 1) + length ls) (VGA_HEIGHT - 1) =
                 min (unat (terminal_row s) + length (l # ls)) (VGA_HEIGHT - 1)"
    by (simp add: min_def)
  ultimately show ?case using r1 by simp
qed

lemma writestring_lines:
  assumes "list_all short_line ls" "Suc (length (lines_text ls)) < 2 ^ 32"
  shows "terminal_writestring (lines_text ls @ [0]) s = putchars (lines_text ls) s"
proof -
  have "0 \<notin> set (lines_text ls)"
    using assms(1) by (auto simp: lines_text_def short_line_def list_all_iff)
  then have "takeWhile (\<lambda>b. b \<noteq> 0) (lines_text ls @ [0]) = lines_text ls"
    by (subst takeWhile_append2) auto
  then show ?thesis
    using assms(2) terminal_writestring_putchars [of "lines_text ls @ [0]" s] by simp
qed

lemma main_loop_lines:
  assumes "terminal_inv s" "terminal_column s = 0" "list_all short_line ls"
    "Suc (length (lines_text ls)) < 2 ^ 32" "msg = lines_text ls @ [0]"
  shows "\<exists>s'. main_loop msg n i s t = Some (s', t + (n - i) * time_delay 1000) \<and>
           terminal_inv s' \<and> terminal_column s' = 0 \<and>
           unat (terminal_row s') = min (unat (terminal_row s) + (n - i) * length ls) (VGA_HEIGHT - 1)"
  using assms
proof (induction msg n i s t rule: main_loop.induct)
  case (1 msg n i s t)
  show ?case
  proof (cases "i < n")
    case True
    obtain s1 where s1: "putchars (lines_text ls) s = Some s1" and inv1: "terminal_inv s1"
      and c1: "terminal_column s1 = 0"
      and r1: "unat (terminal_row s1) = min (unat (terminal_row s) + length ls) (VGA_HEIGHT - 1)"
      using putchars_lines [OF "1.prems"(1-3)] by blast
    have w: "terminal_writestring msg s = Some s1"
      using writestring_lines [OF "1.prems"(3,4)] s1 "1.prems"(5) by simp
    obtain s' where "main_loop msg n (Suc i) s1 (t + time_delay 1000) =
        Some (s', t + time_delay 1000 + (n - Suc i) * time_delay 1000)" "terminal_inv s'"
      "terminal_column s' = 0"
      "unat (terminal_row s') = min (unat (terminal_row s1) + (n - Suc i) * length ls) (VGA_HEIGHT - 1)"
      using "1.IH" [OF True w inv1 c1 "1.prems"(3,4,5)] by blast
    moreover have ni: "n - i = Suc (n - Suc i)" using True by arith
    then have "t + time_delay 1000 + (n - Suc i) * time_delay 1000 = t + (n - i) * time_delay 1000"
      by simp
    moreover have "min (min (unat (terminal_row s) + length ls) (VGA_HEIGHT - 1) + (n - Suc i) * length ls)
                    (VGA_HEIGHT - 1) = min (unat (terminal_row s) + (n - i) * length ls) (VGA_HEIGHT - 1)"
      using ni by (simp add: min_def)
    ultimately show ?thesis
      using True w r1 by (simp add: main_loop.simps [of msg n i s t])
  next
    case False
    then show ?thesis
      using "1.prems" by (simp add: main_loop.simps [of "lines_text ls @ [0]" n i s t]
                                    terminal_inv_def VGA_HEIGHT_def)
  qed
qed

lemma banner_lines:
  "banner = lines_text [map of_char ''MYOS KERNEL VER 0.0'', map of_char ''BUILD DATE 0416221428'', [],
                        map of_char ''Hello from kernel world!''] @ [0]"
  by (simp add: banner_def c_str_def lines_text_def)

lemma wrap_message_lines: "wrap_message = lines_text [map of_char ''Wrapping the screen''] @ [0]"
  by (simp add: wrap_message_def c_str_def lines_text_def)

lemma banner_short:
  "list_all short_line [map of_char ''MYOS KERNEL VER 0.0'', map of_char ''BUILD DATE 0416221428'', [],
                        map of_char ''Hello from kernel world!'']"
  by (simp add: short_line_def VGA_WIDTH_def)

lemma wrap_message_short: "list_all short_line [map of_char ''Wrapping the screen'']"
  by (simp add: short_line_def VGA_WIDTH_def)

subsection \<open>What \<open>kernel_main\<close> does\<close>

text \<open>
  C21. \<open>kernel_main\<close> runs to completion from any machine state whose display
  memory is the full grid: it never performs an undefined memory access, it ends
  with the cursor at column 0 of the last row (its 112 lines overflow the 25 rows),
  and it spends \<open>37 * 10^8\<close> iterations in \<open>time_delay\<close> (37 calls with
  \<open>s = 1000\<close>, none of which wraps).
\<close>

theorem kernel_main_returns:
  assumes "length (vga_text s) = VGA_WIDTH * VGA_HEIGHT"
  shows "\<exists>s'. kernel_main s = Some (s', 3700000000) \<and> terminal_inv s' \<and>
           terminal_row s' = 24 \<and> terminal_column s' = 0"
proof -
  let ?s1 = "s\<lparr>terminal_row := 0, terminal_column := 0,
                 terminal_color := vga_entry_color VGA_COLOR_GREEN VGA_COLOR_BLACK,
                 terminal_buffer := VGA_BASE,
                 vga_text := replicate (VGA_WIDTH * VGA_HEIGHT)
                   (vga_entry 32 (vga_entry_color VGA_COLOR_GREEN VGA_COLOR_BLACK))\<rparr>"
  have inv1: "terminal_inv ?s1" by (simp add: terminal_inv_def VGA_WIDTH_def VGA_HEIGHT_def)
  obtain s2 where l1: "main_loop banner VGA_HEIGHT 0 ?s1 0 = Some (s2, 2500000000)"
    and inv2: "terminal_inv s2" and c2: "terminal_column s2 = 0" and r2: "unat (terminal_row s2) = 24"
    using main_loop_lines [OF inv1 _ banner_short _ banner_lines, of VGA_HEIGHT 0 0]
    by (auto simp: lines_text_def time_delay_1000 VGA_HEIGHT_def)
  obtain s3 where l2: "main_loop wrap_message (VGA_HEIGHT div 2) 0 s2 2500000000 = Some (s3, 3700000000)"
    and inv3: "terminal_inv s3" and c3: "terminal_column s3 = 0" and r3: "unat (terminal_row s3) = 24"
    using main_loop_lines [OF inv2 c2 wrap_message_short _ wrap_message_lines, of "VGA_HEIGHT div 2" 0 2500000000] r2
    by (auto simp: lines_text_def time_delay_1000 VGA_HEIGHT_def)
  have "terminal_row s3 = 24" using r3 by (simp add: word_unat_eq_iff)
  then show ?thesis
    using assms l1 l2 inv3 c3 by (simp add: kernel_main_def terminal_initialize_result)
qed

theorem kernel_main_returns_witness:
  "\<exists>s'. kernel_main (boot_state (replicate 2000 0)) = Some (s', 3700000000) \<and> terminal_inv s' \<and>
      terminal_row s' = 24 \<and> terminal_column s' = 0"
  using kernel_main_returns [of "boot_state (replicate 2000 0)"]
  by (simp add: boot_state_def VGA_WIDTH_def VGA_HEIGHT_def)

text \<open>
  C22. \<open>time_delay s\<close> spins \<open>s * 100000\<close> iterations computed modulo
  \<open>2^32\<close>: the count is \<open>s * 100000\<close> exactly when \<open>s < 42950\<close>, and the
  bound wraps for every larger \<open>s\<close>.
\<close>

theorem time_delay_iterations:
  "time_delay s = unat s * 100000 mod 2 ^ 32 \<and> (time_delay s = unat s * 100000 \<longleftrightarrow> unat s < 42950)"
proof -
  have "unat s * 100000 mod 2 ^ 32 = unat s * 100000 \<longleftrightarrow> unat s * 100000 < (2::nat) ^ 32"
    by (simp add: mod_eq_self_iff_div_eq_0 div_eq_0_iff)
  also have "\<dots> \<longleftrightarrow> unat s * 100000 < (4294967296::nat)" by simp
  also have "\<dots> \<longleftrightarrow> unat s < 42950"
  proof
    assume "unat s * 100000 < (4294967296::nat)"
    then show "unat s < 42950" using mult_le_mono1 [of 42950 "unat s" 100000] by linarith
  next
    assume "unat s < 42950"
    then show "unat s * 100000 < (4294967296::nat)" using mult_le_mono1 [of "unat s" 42949 100000] by linarith
  qed
  finally show ?thesis by (simp add: time_delay_count)
qed

theorem time_delay_iterations_witness:
  "time_delay 1000 = 100000000 \<and> time_delay 50000 \<noteq> 50000 * 100000"
  using time_delay_iterations [of 1000] time_delay_iterations [of 50000] by simp

end
