(* ===== verification/VGA_Screen.thy ===== *)
theory VGA_Screen
  imports VGA_Reach
begin

text \<open>
  An abstract screen: the cursor as natural numbers and the display as a list
  of \<open>VGA_HEIGHT\<close> rows of \<open>VGA_WIDTH\<close> cells.  \<open>screen_putchar\<close> is the
  behaviour the spec (section 4.4) gives a character write, parameterised by the
  scroll it performs; \<open>code_scroll\<close> is the scroll \<open>terminal_scroll_newline\<close>
  implements (rows move up, the last row keeps its contents) and
  \<open>spec_scroll\<close> the one the spec asks for (the last row blanked).  The
  abstraction \<open>abs_screen\<close> reads a \<open>kstate\<close> as a screen, and
  \<open>terminal_putchar\<close> is proved to implement \<open>screen_putchar code_scroll\<close>.
\<close>

record screen =
  cur_row :: nat
  cur_col :: nat
  attr :: uint8
  rows :: "uint16 list list"

definition rows_of :: "vga_mem \<Rightarrow> uint16 list list" where
  "rows_of m = map (\<lambda>y. take VGA_WIDTH (drop (y * VGA_WIDTH) m)) [0..<VGA_HEIGHT]"

definition abs_screen :: "kstate \<Rightarrow> screen" where
  "abs_screen s = \<lparr>cur_row = unat (terminal_row s), cur_col = unat (terminal_column s),
                   attr = terminal_color s, rows = rows_of (vga_text s)\<rparr>"

definition screen_wf :: "screen \<Rightarrow> bool" where
  "screen_wf a \<longleftrightarrow> cur_row a < VGA_HEIGHT \<and> cur_col a < VGA_WIDTH \<and>
     length (rows a) = VGA_HEIGHT \<and> (\<forall>r \<in> set (rows a). length r = VGA_WIDTH)"

definition code_scroll :: "uint16 list list \<Rightarrow> uint16 list list" where
  "code_scroll rs = tl rs @ [last rs]"

definition spec_scroll :: "uint16 list list \<Rightarrow> uint16 list list" where
  "spec_scroll rs = tl rs @ [replicate VGA_WIDTH 0xFF00]"

text \<open>What any scroll must keep: the shape of the grid.\<close>

definition scroll_ok :: "(uint16 list list \<Rightarrow> uint16 list list) \<Rightarrow> bool" where
  "scroll_ok scroll \<longleftrightarrow> (\<forall>rs. length rs = VGA_HEIGHT \<and> (\<forall>r \<in> set rs. length r = VGA_WIDTH) \<longrightarrow>
      length (scroll rs) = VGA_HEIGHT \<and> (\<forall>r \<in> set (scroll rs). length r = VGA_WIDTH))"

definition screen_newline ::
  "(uint16 list list \<Rightarrow> uint16 list list) \<Rightarrow> screen \<Rightarrow> screen" where
  "screen_newline scroll a =
     (if Suc (cur_row a) < VGA_HEIGHT then a\<lparr>cur_row := Suc (cur_row a), cur_col := 0\<rparr>
      else a\<lparr>cur_col := 0, rows := scroll (rows a)\<rparr>)"

definition screen_putchar ::
  "(uint16 list list \<Rightarrow> uint16 list list) \<Rightarrow> uint8 \<Rightarrow> screen \<Rightarrow> screen" where
  "screen_putchar scroll c a =
     (if c = 10 then screen_newline scroll a
      else
        (let a1 = a\<lparr>rows := (rows a)[cur_row a := (rows a ! cur_row a)[cur_col a := vga_entry c (attr a)]]\<rparr>
         in if Suc (cur_col a) < VGA_WIDTH then a1\<lparr>cur_col := Suc (cur_col a)\<rparr>
            else screen_newline scroll a1))"

subsection \<open>Rows of the grid\<close>

lemma grid_index_eq:
  assumes "k < VGA_WIDTH" "x < VGA_WIDTH"
  shows "(j * VGA_WIDTH + k = y * VGA_WIDTH + x) \<longleftrightarrow> j = y \<and> k = x"
proof
  assume e: "j * VGA_WIDTH + k = y * VGA_WIDTH + x"
  have "j = (j * VGA_WIDTH + k) div VGA_WIDTH" "y = (y * VGA_WIDTH + x) div VGA_WIDTH"
    using assms by simp_all
  then show "j = y \<and> k = x" using e by simp
qed simp

lemma grid_index_less:
  "j < VGA_HEIGHT \<Longrightarrow> k < VGA_WIDTH \<Longrightarrow> j * VGA_WIDTH + k < VGA_WIDTH * VGA_HEIGHT"
  by (simp add: VGA_WIDTH_def VGA_HEIGHT_def)

lemma rows_of_shape:
  assumes "length m = VGA_WIDTH * VGA_HEIGHT"
  shows "length (rows_of m) = VGA_HEIGHT" "\<forall>r \<in> set (rows_of m). length r = VGA_WIDTH"
proof -
  show "length (rows_of m) = VGA_HEIGHT" by (simp add: rows_of_def)
  have "y < VGA_HEIGHT \<Longrightarrow> VGA_WIDTH \<le> length m - y * VGA_WIDTH" for y
    using assms by (simp add: VGA_WIDTH_def VGA_HEIGHT_def)
  then show "\<forall>r \<in> set (rows_of m). length r = VGA_WIDTH"
    by (auto simp: rows_of_def)
qed

lemma nth_rows_of:
  assumes "length m = VGA_WIDTH * VGA_HEIGHT" "j < VGA_HEIGHT" "k < VGA_WIDTH"
  shows "rows_of m ! j ! k = m ! (j * VGA_WIDTH + k)"
  using assms by (simp add: rows_of_def add.commute)

lemma rows_of_eqI:
  assumes m: "length m = VGA_WIDTH * VGA_HEIGHT" and rs: "length rs = VGA_HEIGHT"
    and rw: "\<forall>r \<in> set rs. length r = VGA_WIDTH"
    and cells: "\<And>j k. j < VGA_HEIGHT \<Longrightarrow> k < VGA_WIDTH \<Longrightarrow> m ! (j * VGA_WIDTH + k) = rs ! j ! k"
  shows "rows_of m = rs"
proof (rule nth_equalityI)
  show "length (rows_of m) = length rs" using rows_of_shape(1) [OF m] rs by simp
next
  fix j assume "j < length (rows_of m)"
  then have j: "j < VGA_HEIGHT" using rows_of_shape(1) [OF m] by simp
  have "length (rows_of m ! j) = VGA_WIDTH" using rows_of_shape(2) [OF m] j rows_of_shape(1) [OF m]
    by (metis nth_mem)
  moreover have "length (rs ! j) = VGA_WIDTH" using rw rs j by (metis nth_mem)
  ultimately show "rows_of m ! j = rs ! j"
    using nth_rows_of [OF m j] cells [OF j] by (intro nth_equalityI) simp_all
qed

lemma rows_of_update:
  assumes m: "length m = VGA_WIDTH * VGA_HEIGHT" and y: "y < VGA_HEIGHT" and x: "x < VGA_WIDTH"
  shows "rows_of (m[y * VGA_WIDTH + x := v]) = (rows_of m)[y := (rows_of m ! y)[x := v]]"
proof (rule rows_of_eqI)
  show "length (m[y * VGA_WIDTH + x := v]) = VGA_WIDTH * VGA_HEIGHT" using m by simp
  show "length ((rows_of m)[y := (rows_of m ! y)[x := v]]) = VGA_HEIGHT"
    using rows_of_shape(1) [OF m] by simp
  have ry: "length (rows_of m ! y) = VGA_WIDTH"
    using rows_of_shape [OF m] y by (metis nth_mem)
  show "\<forall>r \<in> set ((rows_of m)[y := (rows_of m ! y)[x := v]]). length r = VGA_WIDTH"
    using rows_of_shape(2) [OF m] ry by (auto dest: set_update_subset_insert [THEN subsetD])
  fix j k assume j: "j < VGA_HEIGHT" and k: "k < VGA_WIDTH"
  show "m[y * VGA_WIDTH + x := v] ! (j * VGA_WIDTH + k) = (rows_of m)[y := (rows_of m ! y)[x := v]] ! j ! k"
  proof (cases "j = y")
    case True
    then show ?thesis
      using grid_index_less [OF j k] grid_index_eq [OF k x, of j y] nth_rows_of [OF m j k]
        rows_of_shape(1) [OF m] m ry k y grid_index_less [OF y x]
      by (simp add: nth_list_update)
  next
    case False
    then show ?thesis
      using grid_index_eq [OF k x, of j y] nth_rows_of [OF m j k] by simp
  qed
qed

lemma rows_of_scroll:
  assumes m: "length m = VGA_WIDTH * VGA_HEIGHT"
  shows "rows_of (drop VGA_WIDTH m @ drop (VGA_WIDTH * (VGA_HEIGHT - 1)) m) = code_scroll (rows_of m)"
proof (rule rows_of_eqI)
  show "length (drop VGA_WIDTH m @ drop (VGA_WIDTH * (VGA_HEIGHT - 1)) m) = VGA_WIDTH * VGA_HEIGHT"
    using m by (simp add: VGA_WIDTH_def VGA_HEIGHT_def)
  have ne: "rows_of m \<noteq> []" using rows_of_shape(1) [OF m] by (auto simp: VGA_HEIGHT_def)
  show "length (code_scroll (rows_of m)) = VGA_HEIGHT"
    using rows_of_shape(1) [OF m] ne by (simp add: code_scroll_def VGA_HEIGHT_def)
  show "\<forall>r \<in> set (code_scroll (rows_of m)). length r = VGA_WIDTH"
    using rows_of_shape(2) [OF m] ne by (auto simp: code_scroll_def dest: list.set_sel(2))
  fix j k assume j: "j < VGA_HEIGHT" and k: "k < VGA_WIDTH"
  show "(drop VGA_WIDTH m @ drop (VGA_WIDTH * (VGA_HEIGHT - 1)) m) ! (j * VGA_WIDTH + k) =
        code_scroll (rows_of m) ! j ! k"
  proof (cases "Suc j < VGA_HEIGHT")
    case True
    then have "j < VGA_HEIGHT - 1" by simp
    then have "code_scroll (rows_of m) ! j = rows_of m ! Suc j"
      using rows_of_shape(1) [OF m] by (simp add: code_scroll_def nth_append nth_tl)
    moreover have "j * VGA_WIDTH + k < length (drop VGA_WIDTH m)"
      using True k m by (simp add: VGA_WIDTH_def VGA_HEIGHT_def)
    moreover have "VGA_WIDTH \<le> length m" using m by (simp add: VGA_HEIGHT_def)
    ultimately show ?thesis
      using nth_rows_of [OF m True k] m by (simp add: nth_append add.commute add.left_commute)
  next
    case False
    then have jl: "j = VGA_HEIGHT - 1" using j by simp
    have "code_scroll (rows_of m) ! j = rows_of m ! j"
      using rows_of_shape(1) [OF m] jl ne by (simp add: code_scroll_def nth_append last_conv_nth)
    then show ?thesis
      using nth_rows_of [OF m j k] m jl by (simp add: nth_append VGA_WIDTH_def VGA_HEIGHT_def)
  qed
qed

lemma unat_succ_small:
  fixes w :: size_t
  assumes "Suc (unat w) < n" "n \<le> 2 ^ 32"
  shows "unat (w + 1) = Suc (unat w)"
  using assms unat_add_lem [of w 1] by simp

subsection \<open>\<open>terminal_putchar\<close> implements the abstract write\<close>

lemma abs_screen_wf: "terminal_inv s \<Longrightarrow> screen_wf (abs_screen s)"
  unfolding terminal_inv_def abs_screen_def screen_wf_def using rows_of_shape [of "vga_text s"] by simp

lemma abs_screen_newline:
  assumes inv: "terminal_inv s"
  shows "map_option abs_screen (terminal_putchar 10 s) = Some (screen_newline code_scroll (abs_screen s))"
proof (cases "Suc (unat (terminal_row s)) < VGA_HEIGHT")
  case True
  then have "unat (terminal_row s + 1) = Suc (unat (terminal_row s))"
    by (rule unat_succ_small) (simp add: VGA_HEIGHT_def)
  then show ?thesis
    using True terminal_putchar_newline [OF inv]
    by (simp add: abs_screen_def screen_newline_def)
next
  case False
  have "length (vga_text s) = VGA_WIDTH * VGA_HEIGHT" using inv by (simp add: terminal_inv_def)
  then show ?thesis
    using False inv terminal_putchar_newline [OF inv] rows_of_scroll [of "vga_text s"]
    by (simp add: abs_screen_def screen_newline_def terminal_scroll_newline_result)
qed

lemma abs_screen_char:
  assumes inv: "terminal_inv s" and c: "c \<noteq> 10"
  shows "map_option abs_screen (terminal_putchar c s) = Some (screen_putchar code_scroll c (abs_screen s))"
proof -
  let ?i = "unat (terminal_row s) * VGA_WIDTH + unat (terminal_column s)"
  let ?s1 = "s\<lparr>vga_text := (vga_text s)[?i := vga_entry c (terminal_color s)]\<rparr>"
  have r: "unat (terminal_row s) < VGA_HEIGHT" and k: "unat (terminal_column s) < VGA_WIDTH"
    and m: "length (vga_text s) = VGA_WIDTH * VGA_HEIGHT"
    using inv by (simp_all add: terminal_inv_def)
  have rows1: "rows_of (vga_text ?s1) =
      (rows_of (vga_text s))[unat (terminal_row s) := (rows_of (vga_text s) ! unat (terminal_row s))
         [unat (terminal_column s) := vga_entry c (terminal_color s)]]"
    using rows_of_update [OF m r k] by simp
  have inv1: "terminal_inv (?s1\<lparr>terminal_column := 0\<rparr>)" using inv by (simp add: terminal_inv_def)
  consider (col) "Suc (unat (terminal_column s)) < VGA_WIDTH"
    | (row) "\<not> Suc (unat (terminal_column s)) < VGA_WIDTH" "Suc (unat (terminal_row s)) < VGA_HEIGHT"
    | (scroll) "\<not> Suc (unat (terminal_column s)) < VGA_WIDTH" "\<not> Suc (unat (terminal_row s)) < VGA_HEIGHT"
    by blast
  then show ?thesis
  proof cases
    case col
    then have "unat (terminal_column s + 1) = Suc (unat (terminal_column s))"
      by (rule unat_succ_small) (simp add: VGA_WIDTH_def)
    then show ?thesis
      using col c rows1 terminal_putchar_char [OF inv c]
      by (simp add: abs_screen_def screen_putchar_def Let_def)
  next
    case row
    then have "unat (terminal_row s + 1) = Suc (unat (terminal_row s))"
      by (intro unat_succ_small [of _ VGA_HEIGHT]) (simp_all add: VGA_HEIGHT_def)
    then show ?thesis
      using row c rows1 terminal_putchar_char [OF inv c]
      by (simp add: abs_screen_def screen_putchar_def screen_newline_def Let_def)
  next
    case scroll
    have "terminal_scroll_newline (?s1\<lparr>terminal_column := 0\<rparr>) =
        Some (?s1\<lparr>terminal_column := 0, vga_text := drop VGA_WIDTH (vga_text ?s1) @
                           drop (VGA_WIDTH * (VGA_HEIGHT - 1)) (vga_text ?s1)\<rparr>)"
      using terminal_scroll_newline_result [OF inv1] by simp
    moreover have "rows_of (drop VGA_WIDTH (vga_text ?s1) @ drop (VGA_WIDTH * (VGA_HEIGHT - 1)) (vga_text ?s1)) =
        code_scroll (rows_of (vga_text ?s1))"
      using rows_of_scroll [of "vga_text ?s1"] m by simp
    ultimately show ?thesis
      using scroll c rows1 terminal_putchar_char [OF inv c]
      by (simp add: abs_screen_def screen_putchar_def screen_newline_def Let_def)
  qed
qed

lemma putchars_refines_screen:
  "terminal_inv s \<Longrightarrow>
   map_option abs_screen (putchars cs s) = Some (fold (screen_putchar code_scroll) cs (abs_screen s))"
proof (induction cs arbitrary: s)
  case Nil
  then show ?case by simp
next
  case (Cons c cs)
  obtain s1 where s1: "terminal_putchar c s = Some s1" and inv1: "terminal_inv s1"
    using terminal_putchar_inv [OF Cons.prems] by blast
  have "abs_screen s1 = screen_putchar code_scroll c (abs_screen s)"
    using s1 abs_screen_newline [OF Cons.prems] abs_screen_char [OF Cons.prems, of c]
    by (cases "c = 10") (simp_all add: screen_putchar_def)
  then show ?case using s1 Cons.IH [OF inv1] by simp
qed

lemma code_scroll_ok: "scroll_ok code_scroll"
  unfolding scroll_ok_def
proof (intro allI impI)
  fix rs :: "uint16 list list"
  assume rs: "length rs = VGA_HEIGHT \<and> (\<forall>r \<in> set rs. length r = VGA_WIDTH)"
  then have ne: "rs \<noteq> []" by (auto simp: VGA_HEIGHT_def)
  then show "length (code_scroll rs) = VGA_HEIGHT \<and> (\<forall>r \<in> set (code_scroll rs). length r = VGA_WIDTH)"
    using rs last_in_set [OF ne] list.set_sel(2) [OF ne] by (auto simp: code_scroll_def VGA_HEIGHT_def)
qed

lemma spec_scroll_ok: "scroll_ok spec_scroll"
  unfolding scroll_ok_def
proof (intro allI impI)
  fix rs :: "uint16 list list"
  assume rs: "length rs = VGA_HEIGHT \<and> (\<forall>r \<in> set rs. length r = VGA_WIDTH)"
  then have ne: "rs \<noteq> []" by (auto simp: VGA_HEIGHT_def)
  then show "length (spec_scroll rs) = VGA_HEIGHT \<and> (\<forall>r \<in> set (spec_scroll rs). length r = VGA_WIDTH)"
    using rs list.set_sel(2) [OF ne] by (auto simp: spec_scroll_def VGA_HEIGHT_def)
qed

lemma screen_newline_wf:
  assumes "scroll_ok scroll" "screen_wf a"
  shows "screen_wf (screen_newline scroll a)"
proof -
  have "length (scroll (rows a)) = VGA_HEIGHT \<and> (\<forall>r \<in> set (scroll (rows a)). length r = VGA_WIDTH)"
    using assms unfolding scroll_ok_def screen_wf_def by blast
  then show ?thesis using assms(2) by (simp add: screen_newline_def screen_wf_def VGA_WIDTH_def)
qed

subsection \<open>Refinement and the abstract invariant\<close>

text \<open>
  C23. \<open>terminal_putchar\<close> implements the abstract character write: on an
  initialised terminal it returns a state whose abstract screen is the one
  \<open>screen_putchar\<close> computes, with the scroll the code performs.
\<close>

theorem terminal_putchar_refines:
  assumes "terminal_inv s"
  shows "map_option abs_screen (terminal_putchar c s) = Some (screen_putchar code_scroll c (abs_screen s))"
proof (cases "c = 10")
  case True
  then show ?thesis using abs_screen_newline [OF assms] by (simp add: screen_putchar_def)
next
  case False
  then show ?thesis by (rule abs_screen_char [OF assms])
qed

theorem terminal_putchar_refines_witness:
  "map_option abs_screen (terminal_putchar 72 \<lparr>terminal_row = 0, terminal_column = 0, terminal_color = 2,
       terminal_buffer = VGA_BASE, vga_text = replicate 2000 0x0220\<rparr>) =
   Some (screen_putchar code_scroll 72 (abs_screen \<lparr>terminal_row = 0, terminal_column = 0, terminal_color = 2,
       terminal_buffer = VGA_BASE, vga_text = replicate 2000 0x0220\<rparr>))"
  by (rule terminal_putchar_refines) (simp add: terminal_inv_def VGA_WIDTH_def VGA_HEIGHT_def)

text \<open>
  C24. \<open>terminal_write data size\<close>, when the \<open>size\<close> bytes exist, implements
  the abstract writes of those bytes in order.
\<close>

theorem terminal_write_refines:
  assumes "terminal_inv s" "unat n \<le> length data"
  shows "map_option abs_screen (terminal_write data n s) =
         Some (fold (screen_putchar code_scroll) (take (unat n) data) (abs_screen s))"
  using assms putchars_refines_screen [OF assms(1)] write_loop_putchars [of 0 n data s]
  by (simp add: terminal_write_def)

theorem terminal_write_refines_witness:
  "map_option abs_screen (terminal_write [72, 105] 2 \<lparr>terminal_row = 0, terminal_column = 0, terminal_color = 2,
       terminal_buffer = VGA_BASE, vga_text = replicate 2000 0x0220\<rparr>) =
   Some (fold (screen_putchar code_scroll) [72, 105] (abs_screen \<lparr>terminal_row = 0, terminal_column = 0,
       terminal_color = 2, terminal_buffer = VGA_BASE, vga_text = replicate 2000 0x0220\<rparr>))"
  using terminal_write_refines [of "\<lparr>terminal_row = 0, terminal_column = 0, terminal_color = 2,
       terminal_buffer = VGA_BASE, vga_text = replicate 2000 0x0220\<rparr>" 2 "[72, 105]"]
  by (simp add: terminal_inv_def VGA_WIDTH_def VGA_HEIGHT_def)

text \<open>The abstract write keeps the screen well formed for every scroll that keeps
  the grid's shape: for the code's scroll and for the spec's alike.\<close>

lemma screen_putchar_wf:
  assumes "scroll_ok scroll" "screen_wf a"
  shows "screen_wf (screen_putchar scroll c a)"
proof -
  let ?a1 = "a\<lparr>rows := (rows a)[cur_row a := (rows a ! cur_row a)[cur_col a := vga_entry c (attr a)]]\<rparr>"
  have "length (rows a ! cur_row a) = VGA_WIDTH" using assms(2) by (simp add: screen_wf_def)
  then have wf1: "screen_wf ?a1"
    using assms(2) by (auto simp: screen_wf_def dest: set_update_subset_insert [THEN subsetD])
  show ?thesis
    using screen_newline_wf [OF assms(1) assms(2)] screen_newline_wf [OF assms(1) wf1] wf1
    by (simp add: screen_putchar_def Let_def screen_wf_def)
qed

end
