(* ===== verification/Spec2Isabelle.thy ===== *)
theory Spec2Isabelle
  imports VGA_Kernel VGA_Screen
begin

text \<open>
  \<^bold>\<open>A verified model of the VGA text terminal of \<open>src/kernel.c\<close>.\<close>

  The program is a freestanding i386 kernel whose only logic is a text-mode
  terminal on the memory-mapped VGA grid of 80 by 25 16-bit cells at physical
  address \<open>0xB8000\<close>.  Its parts, leaves first, and the theories that model
  them:

  \<^item> \<^bold>\<open>Prelude\<close> (\<open>VGA_Prelude\<close>): the C types of the i386 target as words
    (\<open>size_t\<close> and pointers 32 bits, \<open>uint8_t\<close>, \<open>uint16_t\<close>), the
    \<open>vga_simps\<close> collection, and word and list lemmas shared by all loops
    (an index below a bound increments without wrap-around; list splices).
  \<^item> \<^bold>\<open>Cell codec\<close> (\<open>VGA_Codec\<close>, source lines 15--43): \<open>enum vga_color\<close>
    as the datatype \<open>vga_color\<close> with \<open>vga_color_val\<close> giving the enum's
    integer values; \<open>vga_entry_color\<close> and \<open>vga_entry\<close> as bitwise \<open>OR\<close> and
    \<open>push_bit\<close> on 8- and 16-bit words.  Decoders read a cell back as the
    hardware does; the round-trip lemmas show the packing is lossless.
  \<^item> \<^bold>\<open>Display buffer\<close> (\<open>VGA_Memory\<close>, lines 53--54, 86--102): the memory
    is the list of the grid's 2000 cells; \<open>p[i]\<close> through a \<open>uint16_t *\<close>
    is the cell at address \<open>p + 2 * i\<close> (\<open>elem_addr\<close>, modulo \<open>2^32\<close>),
    read and written by \<open>vga_load\<close>/\<open>vga_store\<close>.  An address outside the
    grid (a null pointer, a cell past the end) is C undefined behaviour and is
    \<open>None\<close> in the model; every operation above propagates it, so
    \<open>Some\<close> results are proofs of memory safety.  The line helpers
    \<open>terminal_blank_line\<close> and \<open>terminal_line_copy\<close> are recursive
    functions over their \<open>size_t\<close> loop counters (termination by the measure
    bound minus counter); the copy is proved equal to the \<open>memmove\<close>
    reference \<open>move_cells\<close> whenever the destination precedes the source.
  \<^item> \<^bold>\<open>Terminal state\<close> (\<open>VGA_Terminal\<close>, lines 56--84, 104--113): the four
    globals and the display memory form the record \<open>kstate\<close>; at boot
    (\<open>boot_state\<close>) the globals are zero and the buffer pointer is null.
    \<open>terminal_initialize\<close> and \<open>terminal_blank\<close> run the nested fill loops
    \<open>fill_loop\<close>/\<open>fill_row_loop\<close>; \<open>terminal_setcolor\<close> and
    \<open>terminal_putentryat\<close> are direct.  \<open>terminal_inv\<close> is the invariant of
    an initialised terminal: buffer pointer at \<open>0xB8000\<close>, 2000 cells, cursor
    on the screen.
  \<^item> \<^bold>\<open>Scroll engine\<close> (\<open>VGA_Scroll\<close>, lines 115--121):
    \<open>terminal_scroll_newline\<close> over \<open>scroll_loop\<close>, whose C \<open>int\<close> counter
    stays in \<open>0..24\<close> and is modelled as \<open>nat\<close>.  Its effect is proved
    exactly: rows move up by one and the last row keeps its old contents.  The
    spec's scroll (\<open>scroll_spec\<close>, last row blanked) differs from it.
  \<^item> \<^bold>\<open>Writer\<close> (\<open>VGA_Writer\<close>, lines 45--51, 123--154):
    \<open>terminal_putchar\<close> with its newline, wrap and scroll branches in the
    source's order; \<open>terminal_write\<close> as \<open>write_loop\<close>; \<open>strlen\<close> as a
    \<open>partial_function (option)\<close> over the bytes the pointer reaches (a scan
    past the end, or forever, has no result); \<open>terminal_writestring\<close>.
    \<open>putchars\<close> is the reference semantics of a character sequence.
  \<^item> \<^bold>\<open>Runs of characters\<close> (\<open>VGA_Runs\<close>): \<open>run_cells\<close> describes the
    cells a run of ordinary characters leaves in one row; the lemmas give the
    effect of a run inside a row, of a full row (wrap, or scroll on the last
    row) and of a run of newlines.
  \<^item> \<^bold>\<open>Terminal state machine\<close> (\<open>VGA_Reach\<close>): the public operations
    that \<open>kernel_main\<close> and other callers use are the datatype \<open>term_op\<close>;
    \<open>term_exec\<close> runs one by calling the modelled function, \<open>term_run\<close> a
    sequence.  \<open>reachable\<close> is the inductive set of states produced by
    \<open>terminal_initialize\<close> from a boot state and then any operations.  Rule
    induction shows \<open>terminal_inv\<close> on all of them, and from each, every
    operation whose caller buffers are valid (\<open>op_valid\<close>: the bytes
    \<open>terminal_write\<close> reads exist, the string \<open>terminal_writestring\<close> reads
    has a NUL) returns a reachable state without undefined behaviour.
  \<^item> \<^bold>\<open>Caller\<close> (\<open>VGA_Kernel\<close>, lines 156--177): \<open>time_delay\<close>
    changes no state and is modelled by the number of iterations of its loop
    (\<open>delay_loop\<close>, bound \<open>s * 100000\<close> modulo \<open>2^32\<close>);
    \<open>kernel_main\<close> is \<open>terminal_initialize\<close> followed by the two loops
    (\<open>main_loop\<close>) of \<open>terminal_writestring\<close> and \<open>time_delay(1000)\<close>
    over the string literals \<open>banner\<close> and \<open>wrap_message\<close>; the model
    returns the final state and the total number of delay iterations.
  \<^item> \<^bold>\<open>Abstract screen\<close> (\<open>VGA_Screen\<close>): the spec's view of the
    terminal (section 4.4) as the record \<open>screen\<close>: a cursor of natural numbers,
    the attribute and the grid as 25 rows of 80 cells.  \<open>screen_putchar\<close> is
    the specified character write, parameterised by the scroll it performs:
    \<open>code_scroll\<close> (rows move up, the last row keeps its contents) or
    \<open>spec_scroll\<close> (the last row blanked).  \<open>abs_screen\<close> reads a
    \<open>kstate\<close> as a screen (\<open>rows_of\<close> cuts the cell list into rows), and
    \<open>terminal_putchar\<close> and \<open>terminal_write\<close> are proved to refine
    \<open>screen_putchar code_scroll\<close>; the abstract write keeps the screen well
    formed for every shape-preserving scroll (\<open>scroll_ok\<close>).
  \<^item> \<^bold>\<open>Scenarios\<close> (this theory): the examples of the spec's section 8
    on the state \<open>init_screen_state\<close> that \<open>terminal_initialize\<close> produces.

  Properties proved, by group: the codec round trips; the line copy against
  \<open>memmove\<close>; the screen after initialisation; the exact effect of a scroll and
  its divergence from the spec (the blank of each row is overwritten, so the
  last row is never cleared); \<open>terminal_putchar\<close> on every branch (the cell
  it writes, the cursor it moves, the invariant it keeps); \<open>terminal_write\<close>
  equal to \<open>putchars\<close> of the bytes it reads; \<open>strlen\<close> returning exactly
  when a NUL exists, with its index (so the \<open>partial_function\<close> terminates on
  every NUL-terminated string); \<open>terminal_writestring\<close> writing the bytes
  before the NUL; runs of characters and newlines; safety of every public
  operation from every reachable state, and undefined behaviour of writing before
  \<open>terminal_initialize\<close>; the spec's scenarios ("Hi\n", 81 characters, 24 and
  25 newlines, a colour change); \<open>kernel_main\<close> running to completion without
  undefined behaviour, with the cursor it leaves and the delay it spends; the
  iteration count of \<open>time_delay\<close> and its wrap-around for \<open>s \<ge> 42950\<close>;
  the refinement of the abstract screen by \<open>terminal_putchar\<close> and
  \<open>terminal_write\<close>.

  No fuel is used: every loop of the source has a \<open>size_t\<close> or \<open>int\<close>
  counter below a fixed bound and is a terminating \<open>function\<close>; only
  \<open>strlen\<close>, whose loop ends only at a NUL, is a \<open>partial_function (option)\<close>.

  Not modelled: the compile-time target checks (lines 5--13, no run-time
  behaviour) and the boot code that calls \<open>kernel_main\<close> (not in the
  repository's C source).  The screen \<open>kernel_main\<close> leaves is not
  computed cell by cell: only its cursor and the absence of undefined behaviour
  are proved.
\<close>

text \<open>The state \<open>terminal_initialize\<close> produces from any boot screen.\<close>

definition init_screen_state :: kstate where
  "init_screen_state = \<lparr>terminal_row = 0, terminal_column = 0,
     terminal_color = vga_entry_color VGA_COLOR_GREEN VGA_COLOR_BLACK, terminal_buffer = VGA_BASE,
     vga_text = replicate (VGA_WIDTH * VGA_HEIGHT) (vga_entry 32 (vga_entry_color VGA_COLOR_GREEN VGA_COLOR_BLACK))\<rparr>"

subsection \<open>The scenarios of the spec, section 8\<close>

lemma init_boot: "length m = VGA_WIDTH * VGA_HEIGHT \<Longrightarrow> terminal_initialize (boot_state m) = Some init_screen_state"
  by (simp add: terminal_initialize_result boot_state_def init_screen_state_def)

lemma init_inv: "terminal_inv init_screen_state"
  by (simp add: init_screen_state_def terminal_inv_def VGA_WIDTH_def VGA_HEIGHT_def)

text \<open>
  C17. Spec scenario (section 8): after \<open>terminal_initialize\<close>, writing the
  string \<open>"Hi\n"\<close> puts \<open>'H'\<close> and \<open>'i'\<close> in the default attribute into the first
  two cells of row 0 and leaves the cursor at column 0 of row 1.
\<close>

theorem scenario_hello:
  assumes "length m = VGA_WIDTH * VGA_HEIGHT"
  shows "\<exists>s1 s2. terminal_initialize (boot_state m) = Some s1 \<and>
           terminal_writestring (c_str (''Hi'' @ [CHR 0x0A])) s1 = Some s2 \<and>
           cell_at s2 0 0 = vga_entry (of_char (CHR ''H'')) (vga_entry_color VGA_COLOR_GREEN VGA_COLOR_BLACK) \<and>
           cell_at s2 1 0 = vga_entry (of_char (CHR ''i'')) (vga_entry_color VGA_COLOR_GREEN VGA_COLOR_BLACK) \<and>
           terminal_row s2 = 1 \<and> terminal_column s2 = 0"
proof -
  let ?s = init_screen_state
  have ws: "terminal_writestring (c_str (''Hi'' @ [CHR 0x0A])) ?s = putchars ([72, 105] @ [10]) ?s"
    by (simp add: terminal_writestring_putchars c_str_def)
  have run: "putchars [72, 105] ?s = Some (?s\<lparr>vga_text := run_cells 0 [72, 105] (terminal_color ?s) (vga_text ?s),
                terminal_column := 2\<rparr>)"
    using putchars_run [OF init_inv, of "[72, 105]"]
    by (simp add: init_screen_state_def VGA_WIDTH_def)
  let ?sa = "?s\<lparr>vga_text := run_cells 0 [72, 105] (terminal_color ?s) (vga_text ?s),
                terminal_column := 2\<rparr>"
  have inva: "terminal_inv ?sa" using putchars_inv [OF init_inv run] .
  have nl: "terminal_putchar 10 ?sa = Some (?sa\<lparr>terminal_row := 1, terminal_column := 0\<rparr>)"
    using inva by (simp add: terminal_putchar_newline init_screen_state_def VGA_HEIGHT_def)
  have "terminal_writestring (c_str (''Hi'' @ [CHR 0x0A])) ?s =
        Some (?sa\<lparr>terminal_row := 1, terminal_column := 0\<rparr>)"
  proof -
    have "terminal_writestring (c_str (''Hi'' @ [CHR 0x0A])) ?s = putchars [10] ?sa"
      using ws run by (simp only: putchars_append option.case)
    then show ?thesis using nl by simp
  qed
  then show ?thesis
    using init_boot [OF assms]
    by (simp add: cell_at_def run_cells_def init_screen_state_def VGA_WIDTH_def VGA_HEIGHT_def)
qed

theorem scenario_hello_witness:
  "\<exists>s1 s2. terminal_initialize (boot_state (replicate 2000 0)) = Some s1 \<and>
     terminal_writestring (c_str (''Hi'' @ [CHR 0x0A])) s1 = Some s2 \<and>
     cell_at s2 0 0 = vga_entry (of_char (CHR ''H'')) (vga_entry_color VGA_COLOR_GREEN VGA_COLOR_BLACK) \<and>
     cell_at s2 1 0 = vga_entry (of_char (CHR ''i'')) (vga_entry_color VGA_COLOR_GREEN VGA_COLOR_BLACK) \<and>
     terminal_row s2 = 1 \<and> terminal_column s2 = 0"
  using scenario_hello [of "replicate 2000 0"] by (simp add: vga_grid_size)


text \<open>
  C18. Spec scenario (section 8): after \<open>terminal_initialize\<close>,
  \<open>terminal_write\<close> of 81 copies of an ordinary character fills row 0 with it,
  wraps, puts it in the first cell of row 1 and leaves the cursor at (1, 1).
\<close>

theorem scenario_wrap_81:
  assumes "length m = VGA_WIDTH * VGA_HEIGHT" "c \<noteq> 10"
  shows "\<exists>s1 s2. terminal_initialize (boot_state m) = Some s1 \<and>
           terminal_write (replicate 81 c) 81 s1 = Some s2 \<and>
           terminal_row s2 = 1 \<and> terminal_column s2 = 1 \<and>
           (\<forall>x < VGA_WIDTH. cell_at s2 x 0 = vga_entry c (terminal_color s1)) \<and>
           cell_at s2 0 1 = vga_entry c (terminal_color s1)"
proof -
  let ?s = init_screen_state
  let ?a = "terminal_color ?s"
  have rep: "replicate 81 c = replicate 80 c @ [c]"
    using replicate_add [of 80 1 c] by simp
  have wr: "terminal_write (replicate 81 c) 81 ?s = putchars (replicate 81 c) ?s"
    using write_loop_putchars [of 0 81 "replicate 81 c" ?s] by (simp add: terminal_write_def)
  let ?sb = "?s\<lparr>vga_text := run_cells 0 (replicate 80 c) ?a (vga_text ?s), terminal_column := 0,
               terminal_row := 1\<rparr>"
  have row: "putchars (replicate 80 c) ?s = Some ?sb"
    using putchars_fill_row [OF init_inv, of "replicate 80 c"] assms(2)
    by (simp add: init_screen_state_def VGA_WIDTH_def VGA_HEIGHT_def Let_def)
  have invb: "terminal_inv ?sb" using putchars_inv [OF init_inv row] .
  have last: "terminal_putchar c ?sb =
      Some (?sb\<lparr>vga_text := (vga_text ?sb)[80 := vga_entry c ?a], terminal_column := 1\<rparr>)"
    using terminal_putchar_char [OF invb assms(2)] by (simp add: Let_def VGA_WIDTH_def)
  have "terminal_write (replicate 81 c) 81 ?s =
        Some (?sb\<lparr>vga_text := (vga_text ?sb)[80 := vga_entry c ?a], terminal_column := 1\<rparr>)"
  proof -
    have "terminal_write (replicate 81 c) 81 ?s = putchars [c] ?sb"
      using wr row by (simp only: rep putchars_append option.case)
    then show ?thesis using last by simp
  qed
  moreover have "\<forall>x < VGA_WIDTH. ((vga_text ?sb)[80 := vga_entry c ?a]) ! x = vga_entry c ?a"
    by (simp add: run_cells_def init_screen_state_def VGA_WIDTH_def VGA_HEIGHT_def nth_append)
  ultimately show ?thesis
    using init_boot [OF assms(1)]
    by (simp add: cell_at_def run_cells_def init_screen_state_def VGA_WIDTH_def VGA_HEIGHT_def)
qed

theorem scenario_wrap_81_witness:
  "\<exists>s1 s2. terminal_initialize (boot_state (replicate 2000 0)) = Some s1 \<and>
     terminal_write (replicate 81 88) 81 s1 = Some s2 \<and>
     terminal_row s2 = 1 \<and> terminal_column s2 = 1 \<and>
     (\<forall>x < VGA_WIDTH. cell_at s2 x 0 = vga_entry 88 (terminal_color s1)) \<and>
     cell_at s2 0 1 = vga_entry 88 (terminal_color s1)"
  using scenario_wrap_81 [of "replicate 2000 0" 88] by (simp add: vga_grid_size)


text \<open>
  C19. Spec scenario (section 8): from row 0, the first 24 newlines only move
  the cursor down (the screen is unchanged, so no scroll happens) and the 25th
  scrolls exactly once, leaving the cursor on the last row.
\<close>

theorem newlines_scroll_once:
  assumes "terminal_inv s" "terminal_row s = 0"
  shows "putchars (replicate 24 10) s = Some (s\<lparr>terminal_row := 24, terminal_column := 0\<rparr>) \<and>
         (\<exists>s'. putchars (replicate 25 10) s = Some s' \<and> terminal_row s' = 24 \<and>
               terminal_column s' = 0 \<and>
               vga_text s' = drop VGA_WIDTH (vga_text s) @ drop (VGA_WIDTH * (VGA_HEIGHT - 1)) (vga_text s))"
proof -
  have n24: "putchars (replicate 24 10) s = Some (s\<lparr>terminal_row := 24, terminal_column := 0\<rparr>)"
    using putchars_newlines [OF assms(1), of 23] assms(2) by (simp add: VGA_HEIGHT_def)
  let ?s24 = "s\<lparr>terminal_row := 24, terminal_column := 0\<rparr>"
  have inv24: "terminal_inv ?s24" using assms(1) by (simp add: terminal_inv_def VGA_HEIGHT_def VGA_WIDTH_def)
  have n25: "terminal_putchar 10 ?s24 =
             Some (?s24\<lparr>vga_text := drop VGA_WIDTH (vga_text s) @ drop (VGA_WIDTH * (VGA_HEIGHT - 1)) (vga_text s),
                         terminal_column := 0\<rparr>)"
    using inv24 by (simp add: terminal_putchar_newline terminal_scroll_newline_result VGA_HEIGHT_def)
  have rep: "replicate 25 (10 :: uint8) = replicate 24 10 @ [10]"
    using replicate_add [of 24 1 "10 :: uint8"] by simp
  have "putchars (replicate 25 10) s = putchars [10] ?s24"
    using n24 by (simp only: rep putchars_append option.case)
  then show ?thesis using n24 n25 by simp
qed

theorem newlines_scroll_once_witness:
  "putchars (replicate 24 10) init_screen_state =
     Some (init_screen_state\<lparr>terminal_row := 24, terminal_column := 0\<rparr>)"
  using newlines_scroll_once [OF init_inv] by (simp add: init_screen_state_def)


text \<open>
  C20. Spec property (section 8): \<open>terminal_setcolor\<close> changes only the
  attribute of cells written after it: a character written before the change keeps
  its attribute, the next one gets the new attribute.
\<close>

theorem setcolor_affects_later_only:
  assumes "terminal_inv s" "c1 \<noteq> 10" "c2 \<noteq> 10" "unat (terminal_column s) + 2 < VGA_WIDTH"
  shows "\<exists>s1 s2. terminal_putchar c1 s = Some s1 \<and> terminal_putchar c2 (terminal_setcolor a s1) = Some s2 \<and>
           cell_at s2 (unat (terminal_column s)) (unat (terminal_row s)) = vga_entry c1 (terminal_color s) \<and>
           cell_at s2 (unat (terminal_column s) + 1) (unat (terminal_row s)) = vga_entry c2 a \<and>
           terminal_color s2 = a"
proof -
  let ?p = "unat (terminal_row s) * VGA_WIDTH + unat (terminal_column s)"
  let ?s1 = "s\<lparr>vga_text := (vga_text s)[?p := vga_entry c1 (terminal_color s)],
                terminal_column := terminal_column s + 1\<rparr>"
  have s1: "terminal_putchar c1 s = Some ?s1"
    using assms by (simp add: terminal_putchar_char Let_def)
  have c1: "unat (terminal_column s + 1) = Suc (unat (terminal_column s))"
    using assms(4) by (simp add: unat_add_small VGA_WIDTH_def)
  have inv1: "terminal_inv (terminal_setcolor a ?s1)"
    using assms(1,4) c1 by (simp add: terminal_inv_def terminal_setcolor_def)
  have r: "unat (terminal_row s) < VGA_HEIGHT" and len: "length (vga_text s) = VGA_WIDTH * VGA_HEIGHT"
    using assms(1) by (simp_all add: terminal_inv_def)
  have bound: "Suc ?p < length (vga_text s)"
  proof -
    have "unat (terminal_row s) * VGA_WIDTH + VGA_WIDTH \<le> VGA_WIDTH * VGA_HEIGHT"
      using r by (simp add: VGA_WIDTH_def VGA_HEIGHT_def)
    then show ?thesis using assms(4) len by simp
  qed
  show ?thesis
    using s1 terminal_putchar_char [OF inv1 assms(3)] assms(4) c1 bound
    by (simp add: Let_def terminal_setcolor_def cell_at_def nth_list_update)
qed

theorem setcolor_affects_later_only_witness:
  "\<exists>s1 s2. terminal_putchar 72 init_screen_state = Some s1 \<and>
     terminal_putchar 105 (terminal_setcolor 0x1F s1) = Some s2 \<and>
     cell_at s2 0 0 = vga_entry 72 2 \<and> cell_at s2 1 0 = vga_entry 105 0x1F \<and>
     terminal_color s2 = 0x1F"
  using setcolor_affects_later_only [OF init_inv, of 72 105 "0x1F"]
  by (simp add: init_screen_state_def default_color VGA_WIDTH_def)

end
